theory Spec2Isabelle
  imports Complex_Main "HOL-Library.Char_ord" "HOL-Library.List_Lexorder" "HOL-Library.AList"
begin

section \<open>Strings as the pipeline uses them\<close>

text \<open>
  Python strings are sequences of code points; the model uses \<open>string\<close> and so covers the
  code points below 256. The helper functions below follow \<open>str.isspace\<close>, \<open>str.strip\<close>,
  \<open>str.lower\<close>, \<open>str.split\<close> (without argument), \<open>str.join\<close>, \<open>str.startswith\<close>,
  \<open>str.endswith\<close> and the substring test \<open>in\<close> on that range. Lowering a capital letter
  (\<open>A\<close> to \<open>Z\<close>, and the accented capitals \<open>0xC0\<close> to \<open>0xDE\<close> without \<open>0xD7\<close>) adds 32,
  which sets the bit of weight 32.
\<close>

definition is_space :: "char \<Rightarrow> bool" where
  "is_space c \<longleftrightarrow> c \<in> {CHR 0x09, CHR 0x0A, CHR 0x0B, CHR 0x0C, CHR 0x0D,
                        CHR 0x1C, CHR 0x1D, CHR 0x1E, CHR 0x1F, CHR 0x20, CHR 0x85, CHR 0xA0}"

definition lstrip :: "string \<Rightarrow> string" where
  "lstrip s = dropWhile is_space s"

definition rstrip :: "string \<Rightarrow> string" where
  "rstrip s = rev (dropWhile is_space (rev s))"

definition strip :: "string \<Rightarrow> string" where
  "strip s = rstrip (lstrip s)"

definition lower_char :: "char \<Rightarrow> char" where
  "lower_char c =
     (if (CHR ''A'' \<le> c \<and> c \<le> CHR ''Z'') \<or> (CHR 0xC0 \<le> c \<and> c \<le> CHR 0xDE \<and> c \<noteq> CHR 0xD7)
      then (case c of Char b0 b1 b2 b3 b4 b5 b6 b7 \<Rightarrow> Char b0 b1 b2 b3 b4 True b6 b7)
      else c)"

definition lower :: "string \<Rightarrow> string" where
  "lower s = map lower_char s"

fun startswith :: "string \<Rightarrow> string \<Rightarrow> bool" where
  "startswith s [] = True"
| "startswith [] (p # ps) = False"
| "startswith (c # cs) (p # ps) = (c = p \<and> startswith cs ps)"

definition endswith :: "string \<Rightarrow> string \<Rightarrow> bool" where
  "endswith s suf = startswith (rev s) (rev suf)"

fun contains :: "string \<Rightarrow> string \<Rightarrow> bool" where
  "contains k [] = (k = [])"
| "contains k (c # cs) = (startswith (c # cs) k \<or> contains k cs)"

fun split_acc :: "string \<Rightarrow> string \<Rightarrow> string list" where
  "split_acc cur [] = (if cur = [] then [] else [cur])"
| "split_acc cur (c # cs) =
     (if is_space c then (if cur = [] then split_acc [] cs else cur # split_acc [] cs)
      else split_acc (cur @ [c]) cs)"

definition split_ws :: "string \<Rightarrow> string list" where
  "split_ws s = split_acc [] s"

fun join :: "string \<Rightarrow> string list \<Rightarrow> string" where
  "join sep [] = []"
| "join sep [x] = x"
| "join sep (x # y # ys) = x @ sep @ join sep (y # ys)"

section \<open>Configuration\<close>

text \<open>
  One entry of \<open>config.content_types\<close>, with the keys the pipeline reads (an option
  is \<open>None\<close> for an absent key; an absent prompt is the empty string). A Python dict
  iterates in insertion order, so the map is an association list in that order.
\<close>

record type_data =
  is_default :: bool
  detection_keywords :: "string list"
  enable_analysis :: bool
  target_subfolder :: "string option"
  collection_id :: "string option"
  type_name :: "string option"
  system_prompt :: string
  user_prompt :: string

type_synonym content_types = "(string \<times> type_data) list"

section \<open>TextProcessor\<close>

subsection \<open>determine_content_type\<close>

definition intro_text :: "string \<Rightarrow> string" where
  "intro_text text = lower (join '' '' (take 100 (split_ws (take 500 text))))"

definition keywords_match :: "string \<Rightarrow> type_data \<Rightarrow> bool" where
  "keywords_match intro d \<longleftrightarrow>
     detection_keywords d \<noteq> [] \<and> list_ex (\<lambda>k. contains (lower k) intro) (detection_keywords d)"

text \<open>
  The \<open>for\<close> loop over \<open>content_types.items()\<close>: the first component is the key returned
  from inside the loop, if any; the second the value of \<open>default_type\<close> when the loop ends.
\<close>

fun scan_types :: "string \<Rightarrow> string option \<Rightarrow> content_types \<Rightarrow> string option \<times> string option" where
  "scan_types intro default_type [] = (None, default_type)"
| "scan_types intro default_type ((type_key, d) # rest) =
     (let default_type' = (if is_default d then Some type_key else default_type)
      in if keywords_match intro d then (Some type_key, default_type')
         else scan_types intro default_type' rest)"

definition first_available :: "content_types \<Rightarrow> string" where
  "first_available cts = (case cts of [] \<Rightarrow> ''unknown'' | (k, _) # _ \<Rightarrow> k)"

definition determine_content_type :: "content_types \<Rightarrow> string \<Rightarrow> string" where
  "determine_content_type cts text =
     (case scan_types (intro_text text) None cts of
        (Some type_key, _) \<Rightarrow> type_key
      | (None, Some d) \<Rightarrow> (if d \<noteq> [] then d else first_available cts)
      | (None, None) \<Rightarrow> first_available cts)"

subsection \<open>generate_tags\<close>

text \<open>
  The loop keeps the stripped form of every tag whose stripped form is not empty;
  \<open>sorted(list(set(final_tags)))\<close> is the sorted list of the distinct elements.
\<close>

fun collect_tags :: "string list \<Rightarrow> string list" where
  "collect_tags [] = []"
| "collect_tags (t # ts) = (if strip t = [] then collect_tags ts else strip t # collect_tags ts)"

definition generate_tags :: "string \<Rightarrow> string list \<Rightarrow> string \<Rightarrow> string list" where
  "generate_tags text spoken_tags entry_type = sort (remdups (collect_tags spoken_tags))"

section \<open>Properties of the tag list\<close>

lemma set_collect_tags: "set (collect_tags ts) = (strip ` set ts) - {[]}"
  by (induction ts) auto

lemma set_generate_tags: "set (generate_tags text ts et) = (strip ` set ts) - {[]}"
  by (simp add: generate_tags_def set_collect_tags)

lemma generate_tags_set_cong:
  assumes "set ts = set ts'"
  shows "generate_tags text ts et = generate_tags text' ts' et'"
proof -
  have "set (remdups (collect_tags ts)) = set (remdups (collect_tags ts'))"
    using assms by (simp add: set_collect_tags)
  moreover have "distinct (remdups (collect_tags ts))" "distinct (remdups (collect_tags ts'))"
    by simp_all
  ultimately have "sort (remdups (collect_tags ts)) = sort (remdups (collect_tags ts'))"
    by (metis sorted_list_of_set_sort_remdups remdups_id_iff_distinct)
  then show ?thesis by (simp add: generate_tags_def)
qed

lemma strip_no_outer_space:
  assumes "strip t \<noteq> []"
  shows "\<not> is_space (hd (strip t))" and "\<not> is_space (last (strip t))"
proof -
  let ?l = "dropWhile is_space t"
  have ne: "dropWhile is_space (rev ?l) \<noteq> []"
    using assms by (simp add: strip_def rstrip_def lstrip_def)
  have lne: "?l \<noteq> []"
  proof
    assume a: "?l = []"
    have "dropWhile is_space (rev ?l) = []" unfolding a by simp
    with ne show False by blast
  qed
  have h1: "\<not> is_space (hd ?l)" using lne by (rule hd_dropWhile)
  have h2: "\<not> is_space (hd (dropWhile is_space (rev ?l)))" using ne by (rule hd_dropWhile)
  have "last (strip t) = hd (dropWhile is_space (rev ?l))"
    using ne by (simp add: strip_def rstrip_def lstrip_def last_rev)
  with h2 show "\<not> is_space (last (strip t))" by simp
  obtain ys where ys: "rev ?l = takeWhile is_space (rev ?l) @ dropWhile is_space (rev ?l)"
    by simp
  have "?l = rev (dropWhile is_space (rev ?l)) @ rev (takeWhile is_space (rev ?l))"
    by (metis rev_append rev_rev_ident takeWhile_dropWhile_id)
  then have "hd ?l = hd (rev (dropWhile is_space (rev ?l)))"
    using ne by (metis hd_append2 rev_is_Nil_conv)
  with h1 show "\<not> is_space (hd (strip t))"
    by (simp add: strip_def rstrip_def lstrip_def)
qed

text \<open>
  C10. For every list of spoken tags, \<open>generate_tags\<close> returns a sorted list without
  duplicates whose entries are neither empty nor made of whitespace only; two tag lists with
  the same elements (so any permutation, and any duplication, of a list) give the same
  result, and so do any two texts and any two entry types.
\<close>

theorem generate_tags_sorted_distinct_invariant:
  "sorted (generate_tags text ts et) \<and> distinct (generate_tags text ts et)
   \<and> (\<forall>t \<in> set (generate_tags text ts et). t \<noteq> [] \<and> \<not> list_all is_space t)
   \<and> (\<forall>ts'. set ts' = set ts \<longrightarrow> (\<forall>text' et'. generate_tags text' ts' et' = generate_tags text ts et))"
proof (intro conjI ballI allI impI)
  show "sorted (generate_tags text ts et)" by (simp add: generate_tags_def)
  show "distinct (generate_tags text ts et)" by (simp add: generate_tags_def)
next
  fix t assume "t \<in> set (generate_tags text ts et)"
  then obtain u where u: "t = strip u" "strip u \<noteq> []"
    by (auto simp: set_generate_tags)
  then have "\<not> is_space (hd t)" using strip_no_outer_space(1) by simp
  moreover have "hd t \<in> set t" using u by simp
  ultimately have "\<not> list_all is_space t" by (auto simp: list_all_iff)
  then show "t \<noteq> []" "\<not> list_all is_space t" using u by simp_all
next
  fix ts' text' et' assume "set ts' = set ts"
  then show "generate_tags text' ts' et' = generate_tags text ts et"
    by (rule generate_tags_set_cong)
qed

theorem generate_tags_witness:
  "set [''b'', ''a '', ''b''] = set [''a '', ''b'']
   \<and> generate_tags ''x'' [''b'', ''a '', ''b'', ''  ''] ''journal'' = [''a'', ''b'']
   \<and> generate_tags ''y'' [''a '', ''b''] ''dream'' = generate_tags ''x'' [''b'', ''a '', ''b''] ''journal''"
  using generate_tags_sorted_distinct_invariant [of "''x''" "[''b'', ''a '', ''b'']" "''journal''"]
  by (simp add: generate_tags_def strip_def rstrip_def lstrip_def is_space_def insert_commute)


section \<open>Properties of the classification\<close>

text \<open>
  The first type in iteration order whose keywords match the excerpt, and the types marked
  default, in iteration order.
\<close>

definition first_match :: "string \<Rightarrow> content_types \<Rightarrow> string option" where
  "first_match intro cts = map_option fst (find (\<lambda>(k, d). keywords_match intro d) cts)"

definition marked_default :: "content_types \<Rightarrow> string list" where
  "marked_default cts = map fst (filter (\<lambda>(k, d). is_default d) cts)"

lemma scan_types_match:
  "first_match intro cts = Some k \<Longrightarrow> fst (scan_types intro dflt cts) = Some k"
proof (induction cts arbitrary: dflt)
  case Nil
  then show ?case by (simp add: first_match_def)
next
  case (Cons e cts)
  obtain key d where e: "e = (key, d)" by (cases e)
  show ?case
  proof (cases "keywords_match intro d")
    case True
    with Cons.prems e show ?thesis by (simp add: first_match_def Let_def)
  next
    case False
    with Cons.prems e have "first_match intro cts = Some k" by (simp add: first_match_def)
    then have "fst (scan_types intro (if is_default d then Some key else dflt) cts) = Some k"
      by (rule Cons.IH)
    with False e show ?thesis by (simp add: Let_def)
  qed
qed

lemma scan_types_no_match:
  "first_match intro cts = None \<Longrightarrow>
   scan_types intro dflt cts =
     (None, if marked_default cts = [] then dflt else Some (last (marked_default cts)))"
proof (induction cts arbitrary: dflt)
  case Nil
  then show ?case by (simp add: marked_default_def)
next
  case (Cons e cts)
  obtain key d where e: "e = (key, d)" by (cases e)
  from Cons.prems e have nm: "\<not> keywords_match intro d" and rest: "first_match intro cts = None"
    by (auto simp: first_match_def split: if_splits)
  have "scan_types intro (if is_default d then Some key else dflt) cts =
        (None, if marked_default cts = [] then (if is_default d then Some key else dflt)
               else Some (last (marked_default cts)))"
    using rest by (rule Cons.IH)
  with nm e show ?case by (simp add: Let_def marked_default_def)
qed

lemma determine_content_type_no_match:
  assumes "first_match (intro_text text) cts = None"
  shows "determine_content_type cts text =
      (if marked_default cts \<noteq> [] \<and> last (marked_default cts) \<noteq> []
       then last (marked_default cts) else first_available cts)"
proof -
  have scan: "scan_types (intro_text text) None cts =
      (None, if marked_default cts = [] then None else Some (last (marked_default cts)))"
    using assms by (rule scan_types_no_match)
  show ?thesis unfolding determine_content_type_def scan by simp
qed

text \<open>
  C6 (as amended). For every text and content-type map, \<open>determine_content_type\<close> returns the
  first type in iteration order whose keyword list matches the leading excerpt. If no
  keyword list matches and one type, with a key that is not empty, is marked default, it
  returns that type. If no keyword list matches and no type is marked default, it returns
  the first type of the map in iteration order, and the literal \<open>unknown\<close> when the map is
  empty.
\<close>

theorem determine_content_type_first_match_default_first_type:
  "(\<forall>k. first_match (intro_text text) cts = Some k \<longrightarrow> determine_content_type cts text = k)
   \<and> (\<forall>d. first_match (intro_text text) cts = None \<and> marked_default cts = [d] \<and> d \<noteq> []
          \<longrightarrow> determine_content_type cts text = d)
   \<and> (first_match (intro_text text) cts = None \<and> marked_default cts = [] \<and> cts \<noteq> []
          \<longrightarrow> determine_content_type cts text = fst (hd cts))
   \<and> (first_match (intro_text text) cts = None \<and> cts = []
          \<longrightarrow> determine_content_type cts text = ''unknown'')"
proof (intro conjI allI impI)
  fix k assume m: "first_match (intro_text text) cts = Some k"
  from scan_types_match [OF m, of None]
  obtain r where "scan_types (intro_text text) None cts = (Some k, r)"
    by (cases "scan_types (intro_text text) None cts") auto
  then show "determine_content_type cts text = k"
    by (simp add: determine_content_type_def)
next
  fix d assume "first_match (intro_text text) cts = None \<and> marked_default cts = [d] \<and> d \<noteq> []"
  then show "determine_content_type cts text = d"
    by (simp add: determine_content_type_no_match)
next
  assume h: "first_match (intro_text text) cts = None \<and> marked_default cts = [] \<and> cts \<noteq> []"
  then have "first_available cts = fst (hd cts)"
    by (cases cts) (auto simp: first_available_def)
  with h show "determine_content_type cts text = fst (hd cts)"
    by (simp add: determine_content_type_no_match)
next
  assume "first_match (intro_text text) cts = None \<and> cts = []"
  then have "cts = []" by simp
  then show "determine_content_type cts text = ''unknown''"
    by (simp add: determine_content_type_def first_available_def)
qed

text \<open>
  The claim as stated fails on the empty map: nothing matches, nothing is marked default,
  and the result \<open>unknown\<close> is not a type of the map.
\<close>

theorem determine_content_type_empty_map_counterexample:
  "first_match (intro_text ''hello'') [] = None \<and> marked_default [] = []
   \<and> determine_content_type [] ''hello'' = ''unknown''
   \<and> ''unknown'' \<notin> fst ` set ([] :: content_types)"
  by (simp add: first_match_def marked_default_def determine_content_type_def first_available_def)

text \<open>
  Three types: \<open>journal\<close> is the default, \<open>dream\<close> and \<open>idea\<close> have keywords. A text with
  keywords of both is a dream, the first of the two; a text with no keyword is a journal
  entry; without the default it is the first type.
\<close>

definition example_types :: "bool \<Rightarrow> content_types" where
  "example_types with_default =
     [(''dream'', \<lparr>is_default = False, detection_keywords = [''Dream'', ''nightmare''],
                    enable_analysis = True, target_subfolder = Some ''Dreams'', collection_id = None,
                    type_name = None, system_prompt = '''', user_prompt = ''''\<rparr>),
      (''journal'', \<lparr>is_default = with_default, detection_keywords = [], enable_analysis = False,
                      target_subfolder = None, collection_id = None,
                      type_name = None, system_prompt = '''', user_prompt = ''''\<rparr>),
      (''idea'', \<lparr>is_default = False, detection_keywords = [''night''], enable_analysis = False,
                   target_subfolder = None, collection_id = None,
                   type_name = None, system_prompt = '''', user_prompt = ''''\<rparr>)]"

theorem determine_content_type_first_match_default_first_type_witness:
  "determine_content_type (example_types True) ''I had a  Dream last night'' = ''dream''
   \<and> determine_content_type (example_types True) ''Went for a walk'' = ''journal''
   \<and> determine_content_type (example_types False) ''Went for a walk'' = ''dream''
   \<and> determine_content_type [] ''Went for a walk'' = ''unknown''"
proof -
  have m: "first_match (intro_text ''I had a  Dream last night'') (example_types True) = Some ''dream''"
    by (simp add: example_types_def first_match_def keywords_match_def intro_text_def lower_def
        lower_char_def split_ws_def is_space_def)
  have n: "first_match (intro_text ''Went for a walk'') (example_types b) = None" for b
    by (simp add: example_types_def first_match_def keywords_match_def intro_text_def lower_def
        lower_char_def split_ws_def is_space_def)
  have d: "marked_default (example_types True) = [''journal'']"
    and e: "marked_default (example_types False) = []"
    and h: "fst (hd (example_types False)) = ''dream''" and ne: "example_types False \<noteq> []"
    by (simp_all add: example_types_def marked_default_def)
  have e0: "first_match (intro_text ''Went for a walk'') [] = None"
    by (simp add: first_match_def)
  from determine_content_type_first_match_default_first_type
         [of "''I had a  Dream last night''" "example_types True"] m
  have 1: "determine_content_type (example_types True) ''I had a  Dream last night'' = ''dream''"
    by blast
  from determine_content_type_first_match_default_first_type
         [of "''Went for a walk''" "example_types True"] n d
  have 2: "determine_content_type (example_types True) ''Went for a walk'' = ''journal''"
    by simp
  from determine_content_type_first_match_default_first_type
         [of "''Went for a walk''" "example_types False"] n e h ne
  have 3: "determine_content_type (example_types False) ''Went for a walk'' = ''dream''"
    by simp
  from determine_content_type_first_match_default_first_type [of "''Went for a walk''" "[]"] e0
  have 4: "determine_content_type [] ''Went for a walk'' = ''unknown''"
    by simp
  from 1 2 3 4 show ?thesis by simp
qed

text \<open>
  A default whose key is the empty string is not returned: the truth test on
  \<open>default_type\<close> takes it for no default, against the comment above the test, and the
  first type is returned instead.
\<close>

lemma determine_content_type_empty_key_default:
  "determine_content_type
     [(''a'', \<lparr>is_default = False, detection_keywords = [], enable_analysis = False,
               target_subfolder = None, collection_id = None,
               type_name = None, system_prompt = '''', user_prompt = ''''\<rparr>),
      ('''', \<lparr>is_default = True, detection_keywords = [], enable_analysis = False,
              target_subfolder = None, collection_id = None,
              type_name = None, system_prompt = '''', user_prompt = ''''\<rparr>)]
     ''hello'' = ''a''"
  by (simp add: determine_content_type_def keywords_match_def first_available_def)

section \<open>The orchestration layer\<close>

text \<open>
  A job is the pair \<open>(task_type, filepath)\<close> put on \<open>job_queue\<close>; the queue is the list of
  jobs in the order of their \<open>put\<close>. Times are the seconds \<open>time.time()\<close> returns.
  \<open>path_join\<close> is \<open>os.path.join\<close> of two components on a POSIX system.
\<close>

type_synonym job = "string \<times> string"

definition path_join :: "string \<Rightarrow> string \<Rightarrow> string" where
  "path_join a b =
     (if startswith b ''/'' then b
      else if a = [] \<or> endswith a ''/'' then a @ b
      else a @ ''/'' @ b)"

subsection \<open>PeriodicScanner\<close>

text \<open>
  What one pass of \<open>_scan\<close> observes: whether the folder exists, what \<open>os.listdir\<close> returns
  (\<open>None\<close> when it raises), what the membership test on \<open>processing_files\<close> under the lock
  finds for a path, what \<open>os.path.getmtime\<close> returns for it (\<open>None\<close> for \<open>OSError\<close>) and what
  \<open>time.time()\<close> returns when that path is checked.
\<close>

record scan_env =
  folder_exists :: bool
  listdir :: "string list option"
  in_flight :: "string set"
  getmtime :: "string \<Rightarrow> real option"
  clock :: "string \<Rightarrow> real"

definition text_extension :: "string \<Rightarrow> bool" where
  "text_extension f \<longleftrightarrow> endswith (lower f) ''.txt'' \<or> endswith (lower f) ''.md''"

fun scan_files :: "scan_env \<Rightarrow> string \<Rightarrow> string list \<Rightarrow> job list \<Rightarrow> job list" where
  "scan_files env folder [] q = q"
| "scan_files env folder (f # fs) q =
     (let filepath = path_join folder f
      in if filepath \<in> in_flight env then scan_files env folder fs q
         else case getmtime env filepath of
                None \<Rightarrow> scan_files env folder fs q
              | Some mtime \<Rightarrow>
                  if clock env filepath - mtime < 1 then scan_files env folder fs q
                  else scan_files env folder fs (q @ [(''text'', filepath)]))"

definition scan_pass :: "scan_env \<Rightarrow> string \<Rightarrow> job list \<Rightarrow> job list" where
  "scan_pass env folder q =
     (if \<not> folder_exists env then q
      else case listdir env of
             None \<Rightarrow> q
           | Some names \<Rightarrow>
               (let files = filter text_extension names
                in if files = [] then q else scan_files env folder files q))"

definition mtime_stable :: "scan_env \<Rightarrow> string \<Rightarrow> bool" where
  "mtime_stable env filepath \<longleftrightarrow> (\<exists>mtime. getmtime env filepath = Some mtime \<and> 1 \<le> clock env filepath - mtime)"

lemma scan_files_jobs:
  "scan_files env folder fs q =
     q @ map (\<lambda>f. (''text'', path_join folder f))
           (filter (\<lambda>f. path_join folder f \<notin> in_flight env \<and> mtime_stable env (path_join folder f)) fs)"
proof (induction fs arbitrary: q)
  case Nil
  then show ?case by simp
next
  case (Cons f fs)
  show ?case
  proof (cases "getmtime env (path_join folder f)")
    case None
    then show ?thesis by (simp add: Cons.IH mtime_stable_def Let_def)
  next
    case (Some m)
    then show ?thesis by (simp add: Cons.IH mtime_stable_def Let_def not_less)
  qed
qed

lemma scan_pass_jobs:
  assumes "folder_exists env" and "listdir env = Some names"
  shows "scan_pass env folder q =
     q @ map (\<lambda>f. (''text'', path_join folder f))
           (filter (\<lambda>f. path_join folder f \<notin> in_flight env \<and> mtime_stable env (path_join folder f))
              (filter text_extension names))"
proof (cases "filter text_extension names = []")
  case True
  with assms show ?thesis by (simp add: scan_pass_def)
next
  case False
  with assms show ?thesis by (simp add: scan_pass_def scan_files_jobs Let_def)
qed

text \<open>
  C9. In a scanner pass over a listed retry root, a file with an allowed extension is
  submitted as a text job if and only if its path is not in the in-flight set and its
  modification time is at least one second old; a younger file, and a file in flight, is
  not submitted in that pass. The jobs are appended to the queue, which is otherwise
  unchanged.
\<close>

theorem scan_pass_submits_iff_stable_not_in_flight:
  assumes "folder_exists env" and "listdir env = Some names"
    and "f \<in> set names" and "text_extension f"
  shows "((''text'', path_join folder f) \<in> set (scan_pass env folder [])
          \<longleftrightarrow> path_join folder f \<notin> in_flight env
              \<and> (\<exists>mtime. getmtime env (path_join folder f) = Some mtime
                    \<and> 1 \<le> clock env (path_join folder f) - mtime))
         \<and> (\<exists>new. scan_pass env folder q = q @ new \<and> new = scan_pass env folder [])"
proof -
  have "scan_pass env folder [] = map (\<lambda>f. (''text'', path_join folder f))
           (filter (\<lambda>f. path_join folder f \<notin> in_flight env \<and> mtime_stable env (path_join folder f))
              (filter text_extension names))"
    using scan_pass_jobs [OF assms(1,2), of folder "[]"] by simp
  moreover have "scan_pass env folder q = q @ scan_pass env folder []"
    using scan_pass_jobs [OF assms(1,2)] by simp
  ultimately show ?thesis
    using assms(3,4) by (auto simp: mtime_stable_def)
qed

theorem scan_pass_witness:
  "(''text'', ''/in/a.txt'') \<notin> set (scan_pass
      \<lparr>folder_exists = True, listdir = Some [''a.txt'', ''b.MD'', ''c.md'', ''d.wav''],
       in_flight = {''/in/c.md''},
       getmtime = (\<lambda>p. Some (if p = ''/in/a.txt'' then 99.5 else 10)),
       clock = (\<lambda>p. 100)\<rparr> ''/in'' [])
   \<and> scan_pass
      \<lparr>folder_exists = True, listdir = Some [''a.txt'', ''b.MD'', ''c.md'', ''d.wav''],
       in_flight = {''/in/c.md''},
       getmtime = (\<lambda>p. Some (if p = ''/in/a.txt'' then 99.5 else 10)),
       clock = (\<lambda>p. 100)\<rparr> ''/in'' [(''audio'', ''/x.wav'')]
     = [(''audio'', ''/x.wav''), (''text'', ''/in/b.MD'')]"
  using scan_pass_submits_iff_stable_not_in_flight
    [of "\<lparr>folder_exists = True, listdir = Some [''a.txt'', ''b.MD'', ''c.md'', ''d.wav''],
       in_flight = {''/in/c.md''},
       getmtime = (\<lambda>p. Some (if p = ''/in/a.txt'' then 99.5 else 10)),
       clock = (\<lambda>p. 100)\<rparr>" "[''a.txt'', ''b.MD'', ''c.md'', ''d.wav'']" "''a.txt''" "''/in''"
       "[(''audio'', ''/x.wav'')]"]
  by (simp add: scan_pass_def text_extension_def endswith_def lower_def lower_char_def path_join_def)

subsection \<open>Shared state, DebounceManager and worker\<close>

text \<open>
  The module-level \<open>job_queue\<close> and \<open>processing_files\<close>, and the debouncer's \<open>pending\<close>
  dict. A dict keeps the position of a key that is assigned again and appends a new key, as
  \<open>AList.update\<close> does; \<open>del\<close> is \<open>AList.delete\<close>.
\<close>

type_synonym pending_map = "(string \<times> real \<times> string) list"

record sys_state =
  job_queue :: "job list"
  processing_files :: "string set"
  pending :: pending_map

definition schedule :: "real \<Rightarrow> string \<Rightarrow> string \<Rightarrow> real \<Rightarrow> pending_map \<Rightarrow> pending_map" where
  "schedule delay filepath task_type now pend = AList.update filepath (now + delay, task_type) pend"

definition cancel_task :: "string \<Rightarrow> pending_map \<Rightarrow> pending_map" where
  "cancel_task filepath pend = (if filepath \<in> fst ` set pend then AList.delete filepath pend else pend)"

text \<open>
  The pipeline as the worker sees it: whether the path exists, and what each of the three
  calls does for a path, an exception (\<open>Inl\<close>) or a return value. The pipeline raises
  instances of \<open>Exception\<close> only, which is what \<open>except Exception\<close> catches.
\<close>

datatype exn = Exception string

record pipeline_calls =
  path_exists :: "string \<Rightarrow> bool"
  process_audio_call :: "string \<Rightarrow> exn + string option"
  process_text_file_call :: "string \<Rightarrow> exn + string option"
  sync_existing_file_call :: "string \<Rightarrow> exn + unit"

text \<open>The body of the \<open>try\<close> block of \<open>worker\<close>.\<close>

definition worker_try :: "pipeline_calls \<Rightarrow> job \<Rightarrow> sys_state \<Rightarrow> exn + sys_state" where
  "worker_try pl j st =
     (case j of (task_type, filepath) \<Rightarrow>
        if path_exists pl filepath then
          (case (if task_type = ''audio'' then process_audio_call pl filepath
                 else if task_type = ''text'' then process_text_file_call pl filepath
                 else if task_type = ''sync_update'' then
                   (case sync_existing_file_call pl filepath of Inl e \<Rightarrow> Inl e | Inr _ \<Rightarrow> Inr None)
                 else Inr None) of
             Inl e \<Rightarrow> Inl e
           | Inr None \<Rightarrow> Inr st
           | Inr (Some created_file) \<Rightarrow>
               if created_file \<noteq> [] then Inr (st\<lparr>pending := cancel_task created_file (pending st)\<rparr>)
               else Inr st)
        else Inr st)"

text \<open>The \<open>finally\<close> block: after the sleep, the path leaves \<open>processing_files\<close>.\<close>

definition worker_finally :: "string \<Rightarrow> sys_state \<Rightarrow> sys_state" where
  "worker_finally filepath st =
     (if filepath \<in> processing_files st
      then st\<lparr>processing_files := processing_files st - {filepath}\<rparr> else st)"

text \<open>
  One turn of the \<open>while True\<close> loop. \<open>None\<close> is the worker blocked in \<open>job_queue.get()\<close>
  on an empty queue; \<open>Some\<close> is the state in which the loop starts its next turn. An
  exception of the body is caught and logged, and leaves the state as the body found it.
\<close>

definition worker_iteration :: "pipeline_calls \<Rightarrow> sys_state \<Rightarrow> sys_state option" where
  "worker_iteration pl st =
     (case job_queue st of
        [] \<Rightarrow> None
      | j # rest \<Rightarrow>
          (let st1 = st\<lparr>job_queue := rest, processing_files := insert (snd j) (processing_files st)\<rparr>;
               st2 = (case worker_try pl j st1 of Inl e \<Rightarrow> st1 | Inr st' \<Rightarrow> st')
           in Some (worker_finally (snd j) st2)))"

text \<open>The first \<open>n\<close> turns of the loop; it waits when the queue is empty.\<close>

fun worker_loop :: "nat \<Rightarrow> pipeline_calls \<Rightarrow> sys_state \<Rightarrow> sys_state" where
  "worker_loop 0 pl st = st"
| "worker_loop (Suc n) pl st =
     (case worker_iteration pl st of None \<Rightarrow> st | Some st' \<Rightarrow> worker_loop n pl st')"

lemma worker_try_keeps:
  "worker_try pl j st = Inr st' \<Longrightarrow>
     job_queue st' = job_queue st \<and> processing_files st' = processing_files st"
  by (auto simp: worker_try_def split: prod.splits if_splits sum.splits option.splits)

lemma worker_iteration_Cons:
  assumes "job_queue st = j # rest"
  shows "\<exists>st'. worker_iteration pl st = Some st' \<and> job_queue st' = rest
           \<and> processing_files st' = processing_files st - {snd j}"
proof -
  let ?st1 = "st\<lparr>job_queue := rest, processing_files := insert (snd j) (processing_files st)\<rparr>"
  let ?st2 = "case worker_try pl j ?st1 of Inl e \<Rightarrow> ?st1 | Inr st' \<Rightarrow> st'"
  have keep: "job_queue ?st2 = rest \<and> processing_files ?st2 = insert (snd j) (processing_files st)"
  proof (cases "worker_try pl j ?st1")
    case (Inl e)
    then show ?thesis by simp
  next
    case (Inr st')
    with worker_try_keeps [OF Inr] show ?thesis by simp
  qed
  have "worker_iteration pl st = Some (worker_finally (snd j) ?st2)"
    using assms by (simp add: worker_iteration_def Let_def)
  moreover have "job_queue (worker_finally (snd j) ?st2) = rest"
    using keep by (simp add: worker_finally_def)
  moreover have "processing_files (worker_finally (snd j) ?st2) = processing_files st - {snd j}"
    using keep by (simp add: worker_finally_def)
  ultimately show ?thesis by blast
qed

lemma worker_loop_drop:
  "n \<le> length (job_queue st) \<Longrightarrow> job_queue (worker_loop n pl st) = drop n (job_queue st)"
proof (induction n arbitrary: st)
  case 0
  then show ?case by simp
next
  case (Suc n)
  then obtain j rest where q: "job_queue st = j # rest" by (cases "job_queue st") auto
  from worker_iteration_Cons [OF q, of pl]
  obtain st' where it: "worker_iteration pl st = Some st'" and q': "job_queue st' = rest" by blast
  have "n \<le> length (job_queue st')" using Suc.prems q q' by simp
  then have "job_queue (worker_loop n pl st') = drop n (job_queue st')" by (rule Suc.IH)
  with it q q' show ?case by simp
qed

text \<open>
  C5. For every dequeued job, whatever the pipeline call does (return or raise), the turn
  of the worker loop ends with the job's path removed from the in-flight set and with the
  loop ready for its next turn; so the first \<open>n\<close> turns take the first \<open>n\<close> jobs of the
  queue, whichever of them failed. (The one-second cooldown before the removal is a sleep
  and has no effect on the state.)
\<close>

theorem worker_cleanup_and_continue:
  "(job_queue st = j # rest \<longrightarrow>
      (\<exists>st'. worker_iteration pl st = Some st' \<and> job_queue st' = rest
            \<and> snd j \<notin> processing_files st'
            \<and> processing_files st' = processing_files st - {snd j}))
   \<and> (n \<le> length (job_queue st) \<longrightarrow> job_queue (worker_loop n pl st) = drop n (job_queue st))"
proof (intro conjI impI)
  assume q: "job_queue st = j # rest"
  from worker_iteration_Cons [OF q, of pl] show
    "\<exists>st'. worker_iteration pl st = Some st' \<and> job_queue st' = rest
            \<and> snd j \<notin> processing_files st'
            \<and> processing_files st' = processing_files st - {snd j}"
    by auto
next
  assume "n \<le> length (job_queue st)"
  then show "job_queue (worker_loop n pl st) = drop n (job_queue st)" by (rule worker_loop_drop)
qed

theorem worker_cleanup_and_continue_witness:
  "worker_loop 2
     \<lparr>path_exists = (\<lambda>p. True),
      process_audio_call = (\<lambda>p. Inl (Exception ''disk full'')),
      process_text_file_call = (\<lambda>p. Inr (Some ''/out/d-1.md'')),
      sync_existing_file_call = (\<lambda>p. Inr ())\<rparr>
     \<lparr>job_queue = [(''audio'', ''/in/a.wav''), (''text'', ''/in/b.txt''), (''text'', ''/in/c.txt'')],
      processing_files = {}, pending = [(''/out/d-1.md'', 20, ''sync_update'')]\<rparr>
   = \<lparr>job_queue = [(''text'', ''/in/c.txt'')], processing_files = {}, pending = []\<rparr>"
  using worker_cleanup_and_continue
    [of "\<lparr>job_queue = [(''audio'', ''/in/a.wav''), (''text'', ''/in/b.txt''), (''text'', ''/in/c.txt'')],
      processing_files = {}, pending = [(''/out/d-1.md'', 20, ''sync_update'')]\<rparr>"
      "(''audio'', ''/in/a.wav'')" "[(''text'', ''/in/b.txt''), (''text'', ''/in/c.txt'')]"
      "\<lparr>path_exists = (\<lambda>p. True),
      process_audio_call = (\<lambda>p. Inl (Exception ''disk full'')),
      process_text_file_call = (\<lambda>p. Inr (Some ''/out/d-1.md'')),
      sync_existing_file_call = (\<lambda>p. Inr ())\<rparr>" 2]
  by (simp add: numeral_2_eq_2 worker_iteration_def worker_try_def worker_finally_def cancel_task_def
      AList.delete_eq)

text \<open>
  One turn of \<open>_monitor\<close> after its sleep. Under the debouncer's lock it walks a copy of
  the items and moves every due entry from \<open>pending\<close> to \<open>to_process\<close>; then it puts a job
  for every collected path that the membership test on \<open>processing_files\<close> does not find.
\<close>

fun monitor_collect ::
  "real \<Rightarrow> pending_map \<Rightarrow> (string \<times> string) list \<times> pending_map \<Rightarrow> (string \<times> string) list \<times> pending_map" where
  "monitor_collect now [] acc = acc"
| "monitor_collect now ((filepath, execute_at, task_type) # items) (to_process, pend) =
     (if now \<ge> execute_at
      then monitor_collect now items (to_process @ [(filepath, task_type)], AList.delete filepath pend)
      else monitor_collect now items (to_process, pend))"

fun monitor_submit :: "string set \<Rightarrow> (string \<times> string) list \<Rightarrow> job list \<Rightarrow> job list" where
  "monitor_submit pf [] q = q"
| "monitor_submit pf ((filepath, task_type) # rest) q =
     (if filepath \<in> pf then monitor_submit pf rest q
      else monitor_submit pf rest (q @ [(task_type, filepath)]))"

definition monitor_tick :: "real \<Rightarrow> string set \<Rightarrow> pending_map \<times> job list \<Rightarrow> pending_map \<times> job list" where
  "monitor_tick now pf st =
     (case monitor_collect now (fst st) ([], fst st) of
        (to_process, pend) \<Rightarrow> (pend, monitor_submit pf to_process (snd st)))"

text \<open>
  A history of the debouncer: calls of \<open>schedule\<close> and \<open>cancel_task\<close> and turns of the
  monitor, each turn with the time it reads and the in-flight set it finds.
\<close>

datatype event = Schedule string string real | Cancel string | Tick real "string set"

fun debounce_step :: "real \<Rightarrow> event \<Rightarrow> pending_map \<times> job list \<Rightarrow> pending_map \<times> job list" where
  "debounce_step delay (Schedule filepath task_type now) st =
     (schedule delay filepath task_type now (fst st), snd st)"
| "debounce_step delay (Cancel filepath) st = (cancel_task filepath (fst st), snd st)"
| "debounce_step delay (Tick now pf) st = monitor_tick now pf st"

fun debounce_run :: "real \<Rightarrow> event list \<Rightarrow> pending_map \<times> job list \<Rightarrow> pending_map \<times> job list" where
  "debounce_run delay [] st = st"
| "debounce_run delay (ev # evs) st = debounce_run delay evs (debounce_step delay ev st)"

text \<open>The vocabulary of the coalescing property.\<close>

fun event_times :: "event list \<Rightarrow> real list" where
  "event_times [] = []"
| "event_times (Schedule filepath task_type now # evs) = now # event_times evs"
| "event_times (Cancel filepath # evs) = event_times evs"
| "event_times (Tick now pf # evs) = now # event_times evs"

fun schedule_times :: "string \<Rightarrow> event list \<Rightarrow> real list" where
  "schedule_times p [] = []"
| "schedule_times p (Schedule filepath task_type now # evs) =
     (if filepath = p then now # schedule_times p evs else schedule_times p evs)"
| "schedule_times p (Cancel filepath # evs) = schedule_times p evs"
| "schedule_times p (Tick now pf # evs) = schedule_times p evs"

fun cancels :: "string \<Rightarrow> event list \<Rightarrow> bool" where
  "cancels p [] = False"
| "cancels p (Cancel filepath # evs) = (filepath = p \<or> cancels p evs)"
| "cancels p (ev # evs) = cancels p evs"

fun tick_times :: "event list \<Rightarrow> real list" where
  "tick_times [] = []"
| "tick_times (Tick now pf # evs) = now # tick_times evs"
| "tick_times (ev # evs) = tick_times evs"

text \<open>Each call follows the one before it by less than the delay.\<close>

fun within_window :: "real \<Rightarrow> real list \<Rightarrow> bool" where
  "within_window delay (a # b # ts) = (b < a + delay \<and> within_window delay (b # ts))"
| "within_window delay ts = True"

definition jobs_for :: "string \<Rightarrow> job list \<Rightarrow> job list" where
  "jobs_for p q = filter (\<lambda>j. snd j = p) q"

subsection \<open>Properties of the debouncer\<close>

lemma monitor_collect_general:
  "monitor_collect now items (tp, pd) =
     (tp @ map (\<lambda>(p, e, k). (p, k)) (filter (\<lambda>(p, e, k). now \<ge> e) items),
      filter (\<lambda>x. fst x \<notin> fst ` set (filter (\<lambda>(p, e, k). now \<ge> e) items)) pd)"
proof (induction items arbitrary: tp pd)
  case Nil
  then show ?case by simp
next
  case (Cons it items)
  obtain p e k where it: "it = (p, e, k)" by (cases it)
  show ?case
  proof (cases "now \<ge> e")
    case True
    have "filter (\<lambda>x. fst x \<notin> fst ` set (filter (\<lambda>(p, e, k). now \<ge> e) items)) (AList.delete p pd)
        = filter (\<lambda>x. fst x \<notin> insert p (fst ` set (filter (\<lambda>(p, e, k). now \<ge> e) items))) pd"
      by (induction pd) (auto simp: AList.delete_eq)
    with True it show ?thesis by (simp add: Cons.IH)
  next
    case False
    with it show ?thesis by (simp add: Cons.IH)
  qed
qed

lemma monitor_collect_distinct:
  assumes "distinct (map fst pend)"
  shows "monitor_collect now pend ([], pend) =
     (map (\<lambda>(p, e, k). (p, k)) (filter (\<lambda>(p, e, k). now \<ge> e) pend),
      filter (\<lambda>(p, e, k). \<not> now \<ge> e) pend)"
proof -
  have "fst x \<in> fst ` set (filter (\<lambda>(p, e, k). now \<ge> e) pend) \<longleftrightarrow> (case x of (p, e, k) \<Rightarrow> now \<ge> e)"
    if "x \<in> set pend" for x
  proof
    assume "fst x \<in> fst ` set (filter (\<lambda>(p, e, k). now \<ge> e) pend)"
    then obtain y where y: "y \<in> set pend" "case y of (p, e, k) \<Rightarrow> now \<ge> e" "fst y = fst x"
      by auto
    with assms that have "y = x" by (metis eq_key_imp_eq_value prod.collapse)
    with y show "case x of (p, e, k) \<Rightarrow> now \<ge> e" by simp
  next
    assume "case x of (p, e, k) \<Rightarrow> now \<ge> e"
    with that show "fst x \<in> fst ` set (filter (\<lambda>(p, e, k). now \<ge> e) pend)" by force
  qed
  then have "filter (\<lambda>x. fst x \<notin> fst ` set (filter (\<lambda>(p, e, k). now \<ge> e) pend)) pend
      = filter (\<lambda>(p, e, k). \<not> now \<ge> e) pend"
    by (intro filter_cong) auto
  then show ?thesis by (simp add: monitor_collect_general)
qed

lemma monitor_submit_eq:
  "monitor_submit pf tp q = q @ map (\<lambda>(p, k). (k, p)) (filter (\<lambda>(p, k). p \<notin> pf) tp)"
  by (induction tp arbitrary: q) auto

lemma monitor_tick_eq:
  assumes "distinct (map fst pend)"
  shows "monitor_tick now pf (pend, q) =
     (filter (\<lambda>(p, e, k). \<not> now \<ge> e) pend,
      q @ map (\<lambda>(p, e, k). (k, p)) (filter (\<lambda>(p, e, k). now \<ge> e \<and> p \<notin> pf) pend))"
proof -
  have "map (\<lambda>(p, k). (k, p)) (filter (\<lambda>(p, k). p \<notin> pf) (map (\<lambda>(p, e, k). (p, k)) xs))
      = map (\<lambda>(p, e, k). (k, p)) (filter (\<lambda>(p, e, k). p \<notin> pf) xs)" for xs :: pending_map
    by (induction xs) auto
  then show ?thesis
    using assms
    by (simp add: monitor_tick_def monitor_collect_distinct monitor_submit_eq split_def conj_commute)
qed

lemma distinct_schedule:
  "distinct (map fst pend) \<Longrightarrow> distinct (map fst (schedule delay p k now pend))"
  by (simp add: schedule_def distinct_update)

lemma distinct_cancel_task:
  "distinct (map fst pend) \<Longrightarrow> distinct (map fst (cancel_task p pend))"
  by (simp add: cancel_task_def distinct_delete)

lemma distinct_monitor_tick:
  "distinct (map fst pend) \<Longrightarrow> distinct (map fst (fst (monitor_tick now pf (pend, q))))"
  by (simp add: monitor_tick_eq distinct_map_filter)

lemma distinct_debounce_step:
  "distinct (map fst (fst st)) \<Longrightarrow> distinct (map fst (fst (debounce_step delay ev st)))"
  by (cases ev; cases st) (simp_all add: distinct_schedule distinct_cancel_task distinct_monitor_tick)

lemma distinct_debounce_run:
  "distinct (map fst (fst st)) \<Longrightarrow> distinct (map fst (fst (debounce_run delay evs st)))"
  by (induction evs arbitrary: st) (simp_all add: distinct_debounce_step)

text \<open>
  What a history does to one path: its entry of \<open>pending\<close> and its jobs on the queue
  change as follows, whatever the other paths do.
\<close>

fun path_step ::
  "string \<Rightarrow> real \<Rightarrow> event \<Rightarrow> (real \<times> string) option \<times> job list \<Rightarrow> (real \<times> string) option \<times> job list" where
  "path_step p delay (Schedule filepath task_type now) (ent, js) =
     (if filepath = p then (Some (now + delay, task_type), js) else (ent, js))"
| "path_step p delay (Cancel filepath) (ent, js) = (if filepath = p then (None, js) else (ent, js))"
| "path_step p delay (Tick now pf) (ent, js) =
     (case ent of
        None \<Rightarrow> (ent, js)
      | Some (execute_at, task_type) \<Rightarrow>
          if now \<ge> execute_at then (None, if p \<in> pf then js else js @ [(task_type, p)])
          else (ent, js))"

fun path_run ::
  "string \<Rightarrow> real \<Rightarrow> event list \<Rightarrow> (real \<times> string) option \<times> job list \<Rightarrow> (real \<times> string) option \<times> job list" where
  "path_run p delay [] v = v"
| "path_run p delay (ev # evs) v = path_run p delay evs (path_step p delay ev v)"

definition path_view :: "string \<Rightarrow> pending_map \<times> job list \<Rightarrow> (real \<times> string) option \<times> job list" where
  "path_view p st = (map_of (fst st) p, jobs_for p (snd st))"

lemma pending_after_collect:
  assumes "distinct (map fst pend)"
  shows "map_of (filter (\<lambda>(p, e, k). \<not> now \<ge> e) pend) p =
     (if \<exists>e k. map_of pend p = Some (e, k) \<and> now \<ge> e then None else map_of pend p)"
  using assms
proof (induction pend)
  case Nil
  then show ?case by simp
next
  case (Cons x pend)
  obtain a e k where x: "x = (a, e, k)" by (cases x)
  have ih: "map_of (filter (\<lambda>(p, e, k). \<not> now \<ge> e) pend) p =
     (if \<exists>e k. map_of pend p = Some (e, k) \<and> now \<ge> e then None else map_of pend p)"
    using Cons by simp
  show ?case
  proof (cases "a = p")
    case True
    with Cons.prems x have "p \<notin> fst ` set pend" by auto
    then have "map_of pend p = None" by (simp add: map_of_eq_None_iff)
    with ih True x show ?thesis by simp
  next
    case False
    with ih x show ?thesis by auto
  qed
qed

lemma jobs_for_due:
  "distinct (map fst pend) \<Longrightarrow>
   jobs_for p (map (\<lambda>(p, e, k). (k, p)) (filter (\<lambda>(p, e, k). now \<ge> e \<and> p \<notin> pf) pend)) =
     (case map_of pend p of
        None \<Rightarrow> []
      | Some (e, k) \<Rightarrow> if now \<ge> e \<and> p \<notin> pf then [(k, p)] else [])"
proof (induction pend)
  case Nil
  then show ?case by (simp add: jobs_for_def)
next
  case (Cons x pend)
  obtain a e k where x: "x = (a, e, k)" by (cases x)
  show ?case
  proof (cases "a = p")
    case True
    with Cons.prems x have "p \<notin> fst ` set pend" by auto
    then have "jobs_for p (map (\<lambda>(p, e, k). (k, p)) (filter (\<lambda>(p, e, k). now \<ge> e \<and> p \<notin> pf) pend)) = []"
      by (force simp: jobs_for_def filter_empty_conv)
    with True x show ?thesis by (simp add: jobs_for_def)
  next
    case False
    with Cons x show ?thesis by (simp add: jobs_for_def)
  qed
qed

lemma path_view_step:
  assumes "distinct (map fst (fst st))"
  shows "path_view p (debounce_step delay ev st) = path_step p delay ev (path_view p st)"
proof (cases st)
  case (Pair pend q)
  show ?thesis
  proof (cases ev)
    case (Schedule filepath task_type now)
    with Pair show ?thesis
      by (simp add: path_view_def schedule_def update_conv')
  next
    case (Cancel filepath)
    have "map_of pend filepath = None" if "filepath \<notin> fst ` set pend"
      using that by (simp add: map_of_eq_None_iff)
    then have "filepath \<notin> fst ` set pend \<longrightarrow> filepath = p \<longrightarrow> map_of pend p = None"
      by blast
    with Cancel Pair show ?thesis
      by (simp add: path_view_def cancel_task_def delete_conv')
  next
    case (Tick now pf)
    have d: "distinct (map fst pend)" using assms Pair by simp
    have "map_of (filter (\<lambda>(p, e, k). \<not> now \<ge> e) pend) p =
        (case map_of pend p of None \<Rightarrow> None | Some (e, k) \<Rightarrow> if now \<ge> e then None else Some (e, k))"
      using pending_after_collect [OF d, of now p]
      by (auto split: option.splits)
    then have m: "map_of (fst (monitor_tick now pf (pend, q))) p =
        (case map_of pend p of None \<Rightarrow> None | Some (e, k) \<Rightarrow> if now \<ge> e then None else Some (e, k))"
      by (simp add: monitor_tick_eq [OF d])
    have j: "jobs_for p (snd (monitor_tick now pf (pend, q))) = jobs_for p q @
        (case map_of pend p of None \<Rightarrow> [] | Some (e, k) \<Rightarrow> if now \<ge> e \<and> p \<notin> pf then [(k, p)] else [])"
      using jobs_for_due [OF d, of p now pf]
      by (simp add: monitor_tick_eq [OF d] jobs_for_def)
    show ?thesis
    proof (cases "map_of pend p")
      case None
      with m j Tick Pair show ?thesis by (simp add: path_view_def)
    next
      case (Some v)
      obtain e k where v: "v = (e, k)" by (cases v)
      with Some m j Tick Pair show ?thesis by (simp add: path_view_def)
    qed
  qed
qed

lemma path_view_run:
  "distinct (map fst (fst st)) \<Longrightarrow>
   path_view p (debounce_run delay evs st) = path_run p delay evs (path_view p st)"
proof (induction evs arbitrary: st)
  case Nil
  then show ?case by simp
next
  case (Cons ev evs)
  have "distinct (map fst (fst (debounce_step delay ev st)))"
    using Cons.prems by (rule distinct_debounce_step)
  then show ?case
    using Cons.IH [of "debounce_step delay ev st"] path_view_step [OF Cons.prems] by simp
qed

lemma path_run_append:
  "path_run p delay (xs @ ys) v = path_run p delay ys (path_run p delay xs v)"
  by (induction xs arbitrary: v) simp_all

lemma schedule_times_append:
  "schedule_times p (xs @ ys) = schedule_times p xs @ schedule_times p ys"
  by (induction xs rule: schedule_times.induct) simp_all

lemma schedule_times_subset: "set (schedule_times p evs) \<subseteq> set (event_times evs)"
  by (induction evs rule: schedule_times.induct) auto

lemma within_window_tail: "within_window delay (a # ts) \<Longrightarrow> within_window delay ts"
  by (cases ts) simp_all

lemma path_run_no_entry:
  "schedule_times p evs = [] \<Longrightarrow> path_run p delay evs (None, js) = (None, js)"
proof (induction evs)
  case Nil
  then show ?case by simp
next
  case (Cons ev evs)
  then show ?case by (cases ev) (auto split: if_splits)
qed

lemma path_run_before_deadline:
  assumes "schedule_times p evs = []" and "\<not> cancels p evs"
    and "\<forall>s \<in> set (tick_times evs). s < e"
  shows "path_run p delay evs (Some (e, k), js) = (Some (e, k), js)"
  using assms
proof (induction evs)
  case Nil
  then show ?case by simp
next
  case (Cons ev evs)
  then show ?case by (cases ev) (auto split: if_splits)
qed

text \<open>
  While the calls of a burst follow one another within the window, no turn of the monitor
  finds the entry due, whether or not the entry was cancelled in between.
\<close>

lemma path_run_burst:
  assumes "sorted (event_times (pre @ [Schedule p k t]))"
    and "case ent of
           None \<Rightarrow> within_window delay (schedule_times p (pre @ [Schedule p k t]))
         | Some (e, k0) \<Rightarrow> within_window delay ((e - delay) # schedule_times p (pre @ [Schedule p k t]))"
  shows "snd (path_run p delay pre (ent, js)) = js"
  using assms
proof (induction pre arbitrary: ent)
  case Nil
  then show ?case by simp
next
  case (Cons ev pre)
  let ?rest = "pre @ [Schedule p k t]"
  have tail: "within_window delay (schedule_times p ?rest)"
    if "case ent of
           None \<Rightarrow> within_window delay (schedule_times p ?rest)
         | Some (e, k0) \<Rightarrow> within_window delay ((e - delay) # schedule_times p ?rest)"
    using that within_window_tail by (cases ent) (auto split: prod.splits)
  show ?case
  proof (cases ev)
    case (Schedule filepath task_type now)
    have srt: "sorted (event_times ?rest)" using Cons.prems(1) Schedule by simp
    show ?thesis
    proof (cases "filepath = p")
      case True
      have "within_window delay (now # schedule_times p ?rest)"
        using Cons.prems(2) Schedule True by (cases ent) (auto split: prod.splits)
      then have "snd (path_run p delay pre (Some (now + delay, task_type), js)) = js"
        using Cons.IH [OF srt, of "Some (now + delay, task_type)"] by simp
      with Schedule True show ?thesis by simp
    next
      case False
      have "case ent of
           None \<Rightarrow> within_window delay (schedule_times p ?rest)
         | Some (e, k0) \<Rightarrow> within_window delay ((e - delay) # schedule_times p ?rest)"
        using Cons.prems(2) Schedule False by (cases ent) (auto split: prod.splits)
      then have "snd (path_run p delay pre (ent, js)) = js"
        using Cons.IH [OF srt] by blast
      with Schedule False show ?thesis by simp
    qed
  next
    case (Cancel filepath)
    have srt: "sorted (event_times ?rest)" using Cons.prems(1) Cancel by simp
    have w: "case ent of
           None \<Rightarrow> within_window delay (schedule_times p ?rest)
         | Some (e, k0) \<Rightarrow> within_window delay ((e - delay) # schedule_times p ?rest)"
      using Cons.prems(2) Cancel by (cases ent) (auto split: prod.splits)
    show ?thesis
    proof (cases "filepath = p")
      case True
      have "snd (path_run p delay pre (None, js)) = js"
        using Cons.IH [OF srt, of None] tail [OF w] by simp
      with Cancel True show ?thesis by simp
    next
      case False
      have "snd (path_run p delay pre (ent, js)) = js"
        using Cons.IH [OF srt w] .
      with Cancel False show ?thesis by simp
    qed
  next
    case (Tick now pf)
    have srt: "sorted (event_times ?rest)" and le: "\<forall>x \<in> set (event_times ?rest). now \<le> x"
      using Cons.prems(1) Tick by simp_all
    have w: "case ent of
           None \<Rightarrow> within_window delay (schedule_times p ?rest)
         | Some (e, k0) \<Rightarrow> within_window delay ((e - delay) # schedule_times p ?rest)"
      using Cons.prems(2) Tick by (cases ent) (auto split: prod.splits)
    have "path_step p delay ev (ent, js) = (ent, js)"
    proof (cases ent)
      case None
      with Tick show ?thesis by simp
    next
      case (Some v)
      obtain e k0 where v: "v = (e, k0)" by (cases v)
      obtain t1 ts where sts: "schedule_times p ?rest = t1 # ts"
        by (cases "schedule_times p ?rest") (simp_all add: schedule_times_append)
      then have "t1 \<in> set (event_times ?rest)"
        using schedule_times_subset [of p ?rest] by auto
      with le have "now \<le> t1" by blast
      moreover have "t1 < e" using w Some v sts by simp
      ultimately have "now < e" by simp
      with Tick Some v show ?thesis by simp
    qed
    moreover have "snd (path_run p delay pre (ent, js)) = js"
      using Cons.IH [OF srt w] .
    ultimately show ?thesis by simp
  qed
qed

lemma debounce_run_append:
  "debounce_run delay (xs @ ys) st = debounce_run delay ys (debounce_run delay xs st)"
  by (induction xs arbitrary: st) simp_all

lemma path_run_coalesce:
  assumes "sorted (event_times (pre @ [Schedule p k t]))"
    and "within_window delay (schedule_times p (pre @ [Schedule p k t]))"
    and "schedule_times p mid = []" and "\<not> cancels p mid"
    and "\<forall>s' \<in> set (tick_times mid). s' < t + delay"
    and "schedule_times p post = []"
  shows "path_run p delay (pre @ [Schedule p k t] @ mid) (None, js) = (Some (t + delay, k), js)"
    and "t + delay \<le> s \<Longrightarrow>
         path_run p delay (pre @ [Schedule p k t] @ mid @ [Tick s pf] @ post) (None, js)
           = (None, js @ (if p \<in> pf then [] else [(k, p)]))"
    and "path_run p delay (pre @ [Schedule p k t] @ mid @ [Cancel p] @ post) (None, js) = (None, js)"
proof -
  obtain ent where pre: "path_run p delay pre (None, js) = (ent, js)"
    using path_run_burst [OF assms(1), where ent = None and delay = delay and js = js] assms(2)
    by (cases "path_run p delay pre (None, js)") simp
  have sch: "path_run p delay (pre @ [Schedule p k t]) (None, js) = (Some (t + delay, k), js)"
    by (simp add: path_run_append pre)
  have mid: "path_run p delay mid (Some (t + delay, k), js) = (Some (t + delay, k), js)"
    using assms(3,4,5) by (rule path_run_before_deadline)
  show a: "path_run p delay (pre @ [Schedule p k t] @ mid) (None, js) = (Some (t + delay, k), js)"
    using sch mid by (simp add: path_run_append)
  show "path_run p delay (pre @ [Schedule p k t] @ mid @ [Tick s pf] @ post) (None, js)
           = (None, js @ (if p \<in> pf then [] else [(k, p)]))" if "t + delay \<le> s"
  proof -
    have "path_run p delay ([Tick s pf] @ post) (Some (t + delay, k), js)
        = (None, js @ (if p \<in> pf then [] else [(k, p)]))"
      using that path_run_no_entry [OF assms(6)] by simp
    with a show ?thesis
      using path_run_append [of p delay "pre @ [Schedule p k t] @ mid" "[Tick s pf] @ post" "(None, js)"]
      by simp
  qed
  have "path_run p delay ([Cancel p] @ post) (Some (t + delay, k), js) = (None, js)"
    using path_run_no_entry [OF assms(6)] by simp
  with a show "path_run p delay (pre @ [Schedule p k t] @ mid @ [Cancel p] @ post) (None, js) = (None, js)"
    using path_run_append [of p delay "pre @ [Schedule p k t] @ mid" "[Cancel p] @ post" "(None, js)"]
    by simp
qed

text \<open>
  C4 (as amended). Take any history that starts with no entry for a path and in which the
  path is scheduled \<open>N \<ge> 1\<close> times, each call following the one before it by less than the
  delay, with the turns of the monitor in between in the order of their times; let the last
  call be at time \<open>t\<close>. Then \<open>pending\<close> holds at most one entry per path at every moment; after
  the last call the entry of the path is \<open>(t + delay, kind)\<close> of that call, and no job for the
  path has been submitted by the turns before the first turn at or after \<open>t + delay\<close>. If
  \<open>cancel_task\<close> is not called for the path after the last call, that turn removes the entry
  and submits exactly one job for the path when the path is not in the in-flight set, and
  none when it is. If \<open>cancel_task\<close> is called for the path after the last call and before
  such a turn, the entry is removed and no job is submitted. In both cases no later turn
  submits a job for the path until it is scheduled again.
\<close>

theorem debounce_coalescing:
  assumes "distinct (map fst pend)" and "map_of pend p = None"
    and "sorted (event_times (pre @ [Schedule p k t]))"
    and "within_window delay (schedule_times p (pre @ [Schedule p k t]))"
    and "schedule_times p mid = []" and "\<not> cancels p mid"
    and "\<forall>s' \<in> set (tick_times mid). s' < t + delay"
    and "schedule_times p post = []"
  shows "(\<forall>evs. distinct (map fst (fst (debounce_run delay evs (pend, q)))))
    \<and> map_of (fst (debounce_run delay (pre @ [Schedule p k t] @ mid) (pend, q))) p = Some (t + delay, k)
    \<and> jobs_for p (snd (debounce_run delay (pre @ [Schedule p k t] @ mid) (pend, q))) = jobs_for p q
    \<and> (t + delay \<le> s \<longrightarrow>
         map_of (fst (debounce_run delay (pre @ [Schedule p k t] @ mid @ [Tick s pf] @ post) (pend, q))) p = None
       \<and> jobs_for p (snd (debounce_run delay (pre @ [Schedule p k t] @ mid @ [Tick s pf] @ post) (pend, q)))
           = jobs_for p q @ (if p \<in> pf then [] else [(k, p)]))
    \<and> map_of (fst (debounce_run delay (pre @ [Schedule p k t] @ mid @ [Cancel p] @ post) (pend, q))) p = None
    \<and> jobs_for p (snd (debounce_run delay (pre @ [Schedule p k t] @ mid @ [Cancel p] @ post) (pend, q)))
        = jobs_for p q"
proof -
  have d: "distinct (map fst (fst (pend, q)))" using assms(1) by simp
  have v: "path_view p (pend, q) = (None, jobs_for p q)"
    using assms(2) by (simp add: path_view_def)
  have a: "path_view p (debounce_run delay (pre @ [Schedule p k t] @ mid) (pend, q))
      = (Some (t + delay, k), jobs_for p q)"
    using path_view_run [OF d, of p delay "pre @ [Schedule p k t] @ mid"]
      path_run_coalesce(1) [OF assms(3-8), where js = "jobs_for p q"] v by simp
  have b: "path_view p (debounce_run delay (pre @ [Schedule p k t] @ mid @ [Tick s pf] @ post) (pend, q))
      = (None, jobs_for p q @ (if p \<in> pf then [] else [(k, p)]))" if "t + delay \<le> s"
    using path_view_run [OF d, of p delay "pre @ [Schedule p k t] @ mid @ [Tick s pf] @ post"]
      path_run_coalesce(2) [OF assms(3-8) that, where js = "jobs_for p q" and pf = pf] v by simp
  have c: "path_view p (debounce_run delay (pre @ [Schedule p k t] @ mid @ [Cancel p] @ post) (pend, q))
      = (None, jobs_for p q)"
    using path_view_run [OF d, of p delay "pre @ [Schedule p k t] @ mid @ [Cancel p] @ post"]
      path_run_coalesce(3) [OF assms(3-8), where js = "jobs_for p q"] v by simp
  have e: "distinct (map fst (fst (debounce_run delay evs (pend, q))))" for evs
    using d by (rule distinct_debounce_run)
  from a b c e show ?thesis by (simp add: path_view_def)
qed

theorem debounce_coalescing_witness:
  "debounce_run 15
     ([Schedule ''/out/a.md'' ''sync_update'' 0, Tick 1 {}, Schedule ''/out/b.md'' ''sync_update'' 2,
       Cancel ''/out/a.md'', Schedule ''/out/a.md'' ''sync_update'' 5, Tick 6 {}]
      @ [Schedule ''/out/a.md'' ''sync_update'' 10]
      @ [Tick 11 {}, Tick 24 {}] @ [Tick 25 {}] @ [Tick 26 {}, Cancel ''/out/a.md''])
     ([], [])
   = ([], [(''sync_update'', ''/out/b.md''), (''sync_update'', ''/out/a.md'')])
   \<and> debounce_run 15
     ([Schedule ''/out/a.md'' ''sync_update'' 0, Tick 1 {}, Schedule ''/out/b.md'' ''sync_update'' 2,
       Cancel ''/out/a.md'', Schedule ''/out/a.md'' ''sync_update'' 5, Tick 6 {}]
      @ [Schedule ''/out/a.md'' ''sync_update'' 10]
      @ [Tick 11 {}, Tick 24 {}] @ [Cancel ''/out/a.md''] @ [Tick 26 {}, Cancel ''/out/a.md''])
     ([], [])
   = ([], [(''sync_update'', ''/out/b.md'')])"
  using debounce_coalescing
    [where pend = "[]" and p = "''/out/a.md''"
       and pre = "[Schedule ''/out/a.md'' ''sync_update'' 0, Tick 1 {}, Schedule ''/out/b.md'' ''sync_update'' 2,
          Cancel ''/out/a.md'', Schedule ''/out/a.md'' ''sync_update'' 5, Tick 6 {}]"
       and k = "''sync_update''" and t = 10 and mid = "[Tick 11 {}, Tick 24 {}]" and delay = 15
       and post = "[Tick 26 {}, Cancel ''/out/a.md'']" and s = 25 and pf = "{}" and q = "[]"]
  by (simp add: schedule_def cancel_task_def monitor_tick_def jobs_for_def)

text \<open>
  The claim as stated fails when the path is in flight at the turn that finds the entry
  due: the entry is dropped and no job is submitted, then or later. It fails as well when
  \<open>cancel_task\<close> is called for the path before that turn, as the worker does for the
  document that a job has created.
\<close>

theorem debounce_in_flight_counterexample:
  "debounce_run 15 [Schedule ''/out/a.md'' ''sync_update'' 0, Tick 15 {''/out/a.md''}, Tick 16 {}] ([], [])
     = ([], [])
   \<and> debounce_run 15 [Schedule ''/out/a.md'' ''sync_update'' 0, Cancel ''/out/a.md'', Tick 15 {}, Tick 16 {}] ([], [])
     = ([], [])"
  by (simp add: schedule_def monitor_tick_def cancel_task_def)

section \<open>The pipeline\<close>

subsection \<open>Files and names\<close>

text \<open>
  The regular files of the file system, as the list of their paths with their contents.
  Directories are not part of it: \<open>os.makedirs\<close> leaves the files as they are, and
  writing and removing an existing file succeed; whether the folder that a file is copied
  or moved into exists is an observation of the environment (\<open>isdir\<close>, below).
\<close>

type_synonym filesystem = "(string \<times> string) list"

definition fs_exists :: "filesystem \<Rightarrow> string \<Rightarrow> bool" where
  "fs_exists fs path \<longleftrightarrow> path \<in> fst ` set fs"

definition fs_write :: "string \<Rightarrow> string \<Rightarrow> filesystem \<Rightarrow> filesystem" where
  "fs_write path content fs = AList.update path content fs"

definition fs_remove :: "string \<Rightarrow> filesystem \<Rightarrow> filesystem" where
  "fs_remove path fs = AList.delete path fs"

text \<open>
  \<open>shutil.copy2\<close>: copying a missing file, copying a file onto itself and copying into a
  folder that does not exist raise and change nothing. Whether the folder of the
  destination exists is the first argument.
\<close>

definition fs_copy :: "bool \<Rightarrow> string \<Rightarrow> string \<Rightarrow> filesystem \<Rightarrow> filesystem option" where
  "fs_copy dst_folder_exists src dst fs =
     (case map_of fs src of None \<Rightarrow> None | Some content \<Rightarrow>
        if src = dst \<or> \<not> dst_folder_exists then None else Some (fs_write dst content fs))"

definition basename :: "string \<Rightarrow> string" where
  "basename path = rev (takeWhile (\<lambda>c. c \<noteq> CHR ''/'') (rev path))"

text \<open>The decimal digits of a number, as the f-string \<open>{counter}\<close> prints them.\<close>

definition digit_char :: "nat \<Rightarrow> char" where
  "digit_char n = ''0123456789'' ! n"

fun str_nat :: "nat \<Rightarrow> string" where
  "str_nat n = (if n < 10 then [digit_char n] else str_nat (n div 10) @ [digit_char (n mod 10)])"

declare str_nat.simps [simp del]

definition final_filename :: "string \<Rightarrow> nat \<Rightarrow> string" where
  "final_filename base_id counter = base_id @ ''-'' @ str_nat counter @ ''.md''"

lemma digit_char_inj: "a < 10 \<Longrightarrow> b < 10 \<Longrightarrow> digit_char a = digit_char b \<Longrightarrow> a = b"
proof -
  assume a: "a < 10" and b: "b < 10" and eq: "digit_char a = digit_char b"
  have "distinct ''0123456789''" by simp
  moreover have "a < length ''0123456789''" "b < length ''0123456789''" using a b by simp_all
  ultimately show "a = b" using eq unfolding digit_char_def by (simp only: nth_eq_iff_index_eq)
qed

lemma str_nat_not_Nil: "str_nat n \<noteq> []"
  by (subst str_nat.simps) simp

lemma str_nat_inj: "str_nat n = str_nat m \<Longrightarrow> n = m"
proof (induction n arbitrary: m rule: str_nat.induct)
  case (1 n)
  show ?case
  proof (cases "n < 10")
    case True
    have n: "str_nat n = [digit_char n]" using True by (subst str_nat.simps) simp
    show ?thesis
    proof (cases "m < 10")
      case m: True
      then have "str_nat m = [digit_char m]" by (subst str_nat.simps) simp
      with n "1.prems" have "digit_char n = digit_char m" by simp
      with True m show ?thesis by (rule digit_char_inj)
    next
      case False
      then have "str_nat m = str_nat (m div 10) @ [digit_char (m mod 10)]"
        by (subst str_nat.simps) simp
      with n "1.prems" have "str_nat (m div 10) = []" by simp
      with str_nat_not_Nil show ?thesis by blast
    qed
  next
    case False
    have n: "str_nat n = str_nat (n div 10) @ [digit_char (n mod 10)]"
      using False by (subst str_nat.simps) simp
    show ?thesis
    proof (cases "m < 10")
      case True
      then have "str_nat m = [digit_char m]" by (subst str_nat.simps) simp
      with n "1.prems" have "str_nat (n div 10) = []" by simp
      with str_nat_not_Nil show ?thesis by blast
    next
      case m: False
      then have "str_nat m = str_nat (m div 10) @ [digit_char (m mod 10)]"
        by (subst str_nat.simps) simp
      with n "1.prems" have hi: "str_nat (n div 10) = str_nat (m div 10)"
        and lo: "digit_char (n mod 10) = digit_char (m mod 10)" by simp_all
      have "n div 10 = m div 10" using False hi by (rule "1.IH")
      moreover have "n mod 10 = m mod 10" using lo by (intro digit_char_inj) simp_all
      ultimately show ?thesis by (metis div_mult_mod_eq)
    qed
  qed
qed

lemma final_filename_inj: "final_filename base_id n = final_filename base_id m \<Longrightarrow> n = m"
  by (simp add: final_filename_def str_nat_inj)

lemma path_join_final_inj:
  "path_join dir (final_filename base_id n) = path_join dir (final_filename base_id m) \<Longrightarrow> n = m"
proof -
  assume eq: "path_join dir (final_filename base_id n) = path_join dir (final_filename base_id m)"
  have hd: "startswith (final_filename base_id n) ''/'' = startswith (final_filename base_id m) ''/''"
    by (cases base_id) (simp_all add: final_filename_def)
  from eq hd have "final_filename base_id n = final_filename base_id m"
    by (auto simp: path_join_def split: if_splits)
  then show "n = m" by (rule final_filename_inj)
qed

text \<open>
  The \<open>while True\<close> loop that looks for a free name; it ends because the files are
  finitely many and the names of different counters differ.
\<close>

function next_counter :: "filesystem \<Rightarrow> string \<Rightarrow> string \<Rightarrow> nat \<Rightarrow> nat" where
  "next_counter fs target_dir base_id counter =
     (if \<not> fs_exists fs (path_join target_dir (final_filename base_id counter)) then counter
      else next_counter fs target_dir base_id (counter + 1))"
  by pat_completeness auto
termination
proof (relation "measure (\<lambda>(fs, target_dir, base_id, counter).
    card {k. counter \<le> k \<and> fs_exists fs (path_join target_dir (final_filename base_id k))})")
  show "wf (measure (\<lambda>(fs, target_dir, base_id, counter).
    card {k. counter \<le> k \<and> fs_exists fs (path_join target_dir (final_filename base_id k))}))"
    by simp
next
  fix fs :: filesystem and target_dir base_id :: string and counter :: nat
  assume "\<not> \<not> fs_exists fs (path_join target_dir (final_filename base_id counter))"
  then have ex: "fs_exists fs (path_join target_dir (final_filename base_id counter))" by simp
  let ?name = "\<lambda>k. path_join target_dir (final_filename base_id k)"
  let ?A = "\<lambda>c. {k. c \<le> k \<and> fs_exists fs (?name k)}"
  have "inj ?name" by (rule injI) (rule path_join_final_inj)
  then have "finite (?name -` (fst ` set fs))" by (intro finite_vimageI) simp_all
  moreover have "?A counter \<subseteq> ?name -` (fst ` set fs)" by (auto simp: fs_exists_def)
  ultimately have fin: "finite (?A counter)" by (rule rev_finite_subset)
  have "counter \<in> ?A counter" and "counter \<notin> ?A (counter + 1)"
    and "?A (counter + 1) \<subseteq> ?A counter" using ex by auto
  then have "?A (counter + 1) \<subset> ?A counter" by blast
  with fin have "card (?A (counter + 1)) < card (?A counter)" by (rule psubset_card_mono)
  then show "((fs, target_dir, base_id, counter + 1), (fs, target_dir, base_id, counter))
      \<in> measure (\<lambda>(fs, target_dir, base_id, counter).
        card {k. counter \<le> k \<and> fs_exists fs (path_join target_dir (final_filename base_id k))})"
    by simp
qed

declare next_counter.simps [simp del]

lemma next_counter_free:
  "\<not> fs_exists fs (path_join target_dir (final_filename base_id (next_counter fs target_dir base_id c)))"
  by (induction fs target_dir base_id c rule: next_counter.induct)
     (subst next_counter.simps, simp)

lemma next_counter_ge: "c \<le> next_counter fs target_dir base_id c"
proof (induction fs target_dir base_id c rule: next_counter.induct)
  case (1 fs target_dir base_id counter)
  then show ?case by (subst next_counter.simps) (auto simp: le_Suc_eq)
qed

lemma next_counter_least:
  "c \<le> k \<Longrightarrow> k < next_counter fs target_dir base_id c \<Longrightarrow>
   fs_exists fs (path_join target_dir (final_filename base_id k))"
proof (induction fs target_dir base_id c rule: next_counter.induct)
  case (1 fs target_dir base_id counter)
  show ?case
  proof (cases "fs_exists fs (path_join target_dir (final_filename base_id counter))")
    case False
    then have "next_counter fs target_dir base_id counter = counter"
      by (subst next_counter.simps) simp
    with "1.prems" show ?thesis by simp
  next
    case True
    then have nx: "next_counter fs target_dir base_id counter = next_counter fs target_dir base_id (counter + 1)"
      by (subst next_counter.simps) simp
    show ?thesis
    proof (cases "k = counter")
      case k: True
      with True show ?thesis by simp
    next
      case False
      with "1.prems" nx have "counter + 1 \<le> k" "k < next_counter fs target_dir base_id (counter + 1)"
        by simp_all
      with True show ?thesis using "1.IH" by simp
    qed
  qed
qed

subsection \<open>Values, collaborators and configuration\<close>

text \<open>
  The values that \<open>json.loads\<close> and \<open>yaml.safe_load\<close> return, with Python's truth test
  and the lookup \<open>d.get(k, default)\<close>; \<open>{**a, **b}\<close> is \<open>dict_merge a b\<close>.
\<close>

datatype pyval = PNone | PBool bool | PInt int | PStr string | PList "pyval list"
  | PDict "(string \<times> pyval) list"

type_synonym pydict = "(string \<times> pyval) list"

fun truthy :: "pyval \<Rightarrow> bool" where
  "truthy PNone = False"
| "truthy (PBool b) = b"
| "truthy (PInt i) = (i \<noteq> 0)"
| "truthy (PStr s) = (s \<noteq> [])"
| "truthy (PList l) = (l \<noteq> [])"
| "truthy (PDict d) = (d \<noteq> [])"

definition dict_get :: "pydict \<Rightarrow> string \<Rightarrow> pyval \<Rightarrow> pyval" where
  "dict_get d k dflt = (case map_of d k of None \<Rightarrow> dflt | Some v \<Rightarrow> v)"

definition dict_merge :: "pydict \<Rightarrow> pydict \<Rightarrow> pydict" where
  "dict_merge a b = fold (\<lambda>(k, v). AList.update k v) b a"

text \<open>The test \<open>s in v\<close> for a string \<open>s\<close>; it raises \<open>TypeError\<close> on a value that is no container.\<close>

fun py_contains :: "string \<Rightarrow> pyval \<Rightarrow> exn + bool" where
  "py_contains s (PList l) = Inr (PStr s \<in> set l)"
| "py_contains s (PStr t) = Inr (contains s t)"
| "py_contains s (PDict d) = Inr (s \<in> fst ` set d)"
| "py_contains s v = Inl (Exception ''TypeError'')"

text \<open>\<open>str.replace\<close> and \<open>str.split\<close> with a separator, both for a non-empty first argument.\<close>

fun str_replace :: "string \<Rightarrow> string \<Rightarrow> string \<Rightarrow> string" where
  "str_replace old new [] = []"
| "str_replace old new (c # cs) =
     (if old \<noteq> [] \<and> startswith (c # cs) old
      then new @ str_replace old new (drop (length old) (c # cs))
      else c # str_replace old new cs)"

fun split_on_acc :: "string \<Rightarrow> string \<Rightarrow> string \<Rightarrow> string list" where
  "split_on_acc sep cur [] = [cur]"
| "split_on_acc sep cur (c # cs) =
     (if sep \<noteq> [] \<and> startswith (c # cs) sep
      then cur # split_on_acc sep [] (drop (length sep) (c # cs))
      else split_on_acc sep (cur @ [c]) cs)"

definition split_on :: "string \<Rightarrow> string \<Rightarrow> string list" where
  "split_on sep s = split_on_acc sep [] s"

text \<open>
  The result of \<open>extract_metadata_from_text\<close>. Its regular expressions and date parsing rest
  on the \<open>re\<close> and \<open>dateparser\<close> libraries and on the clock, so the function is a parameter.
\<close>

record metadata =
  meta_date :: string
  meta_time :: string
  clean_text :: string
  spoken_tags :: "string list"

text \<open>
  What lies outside the pipeline: the HTTP calls of the client (\<open>chat_completion\<close> returns
  the empty string on every failure, \<open>upload_file\<close> returns \<open>None\<close> on every failure and
  \<open>health_status\<close> is the status code of the health request, \<open>None\<close> when it raises), the
  transcriber (\<open>None\<close> when it raises or returns nothing), and the library functions
  \<open>json.loads\<close> and \<open>yaml.safe_load\<close> (\<open>None\<close> when they raise), \<open>yaml.dump\<close>, \<open>str()\<close> on a
  value that is not a string, and \<open>str.title\<close>; and whether a folder exists when a file is
  copied or moved into it (\<open>isdir\<close>).
\<close>

record collaborators =
  chat_completion :: "string \<Rightarrow> string \<Rightarrow> string"
  health_status :: "nat option"
  upload_file :: "string \<Rightarrow> string \<Rightarrow> string option"
  link_to_collection :: "string \<Rightarrow> string \<Rightarrow> bool"
  transcribe :: "string \<Rightarrow> string option"
  json_loads :: "string \<Rightarrow> pyval option"
  yaml_safe_load :: "string \<Rightarrow> pyval option"
  yaml_dump :: "pydict \<Rightarrow> string"
  str_other :: "pyval \<Rightarrow> string"
  title_case :: "string \<Rightarrow> string"
  extract_metadata_from_text :: "string \<Rightarrow> string \<Rightarrow> metadata"
  isdir :: "string \<Rightarrow> bool"

record pipeline_config =
  content_types :: content_types
  output_path :: string
  archive_path :: string
  text_input_dir :: string
  metadata_prompt_system :: string
  metadata_prompt_user :: string
  focus_mode_id :: "string option"

definition check_health :: "collaborators \<Rightarrow> bool" where
  "check_health ext = (case health_status ext of None \<Rightarrow> False | Some status_code \<Rightarrow> status_code = 200)"

definition format_value :: "collaborators \<Rightarrow> pyval \<Rightarrow> string" where
  "format_value ext v = (case v of PStr s \<Rightarrow> s | _ \<Rightarrow> str_other ext v)"

text \<open>
  The lookup \<open>content_types.get(entry_type)\<close> for a value read from front matter: a list
  or a dict is unhashable and raises \<open>TypeError\<close>; another value that is no string is no key.
\<close>

fun lookup_type :: "pipeline_config \<Rightarrow> pyval \<Rightarrow> exn + type_data option" where
  "lookup_type cfg (PStr s) = Inr (map_of (content_types cfg) s)"
| "lookup_type cfg (PList l) = Inl (Exception ''TypeError'')"
| "lookup_type cfg (PDict d) = Inl (Exception ''TypeError'')"
| "lookup_type cfg v = Inr None"

subsection \<open>Enrichment, analysis, sync and markdown\<close>

definition enrich_defaults :: pydict where
  "enrich_defaults = [(''title'', PStr ''Untitled''), (''language'', PStr ''en''),
     (''emotions'', PList []), (''characters'', PList []), (''summary'', PStr '''')]"

definition enrich_content :: "collaborators \<Rightarrow> pipeline_config \<Rightarrow> string \<Rightarrow> pydict" where
  "enrich_content ext cfg text =
     (let response = chat_completion ext (metadata_prompt_system cfg)
            (metadata_prompt_user cfg @ ''\<newline>\<newline>TEXT:\<newline>'' @ take 2500 text)
      in if response = [] then enrich_defaults
         else case json_loads ext (strip (str_replace ''```'' '''' (str_replace ''```json'' '''' response))) of
                Some (PDict data) \<Rightarrow>
                  dict_merge enrich_defaults
                    (if \<not> truthy (dict_get data ''title'' PNone)
                     then AList.update ''title'' (PStr ''Untitled'') data else data)
              | _ \<Rightarrow> enrich_defaults)"

definition run_analysis :: "collaborators \<Rightarrow> pipeline_config \<Rightarrow> type_data option \<Rightarrow> string \<Rightarrow> string" where
  "run_analysis ext cfg type_cfg text =
     (case type_cfg of
        None \<Rightarrow> ''''
      | Some c \<Rightarrow> chat_completion ext (system_prompt c) (user_prompt c @ ''\<newline>\<newline>TRANSCRIPT:\<newline>'' @ text))"

text \<open>
  \<open>_sync_file\<close>: failure of the upload is the return value \<open>False\<close>. The links to the
  collections change the remote store only; the test for the focus tag can raise. Here and
  in \<open>run_analysis\<close> the argument \<open>type_cfg\<close> is the entry of \<open>content_types\<close> for the entry
  type, which the source looks up from \<open>entry_type\<close> once more (\<open>None\<close> when there is none).
\<close>

definition sync_file ::
  "collaborators \<Rightarrow> pipeline_config \<Rightarrow> string \<Rightarrow> type_data option \<Rightarrow> pyval \<Rightarrow> bool \<Rightarrow> exn + bool" where
  "sync_file ext cfg filepath type_cfg tags force_focus =
     (case upload_file ext filepath (basename filepath) of
        None \<Rightarrow> Inr False
      | Some fid \<Rightarrow>
          if fid = [] then Inr False
          else (let linked = (case type_cfg of
                                Some c \<Rightarrow> (case collection_id c of
                                             Some cid \<Rightarrow> cid \<noteq> [] \<and> link_to_collection ext fid cid
                                           | None \<Rightarrow> False)
                              | None \<Rightarrow> False)
                in case (if force_focus then Inr True else py_contains ''FOCUS'' tags) of
                     Inl e \<Rightarrow> Inl e
                   | Inr should_focus \<Rightarrow>
                       (let focused = (should_focus \<and>
                              (case focus_mode_id cfg of
                                 Some fm_id \<Rightarrow> fm_id \<noteq> [] \<and> link_to_collection ext fid fm_id
                               | None \<Rightarrow> False))
                        in Inr True)))"

definition construct_markdown ::
  "collaborators \<Rightarrow> pipeline_config \<Rightarrow> string \<Rightarrow> metadata \<Rightarrow> pydict \<Rightarrow> string \<Rightarrow> string list
     \<Rightarrow> string \<Rightarrow> string \<Rightarrow> string" where
  "construct_markdown ext cfg file_id meta ai_meta entry_type tags analysis original_filename =
     (let generic = title_case ext (str_replace ''_'' '' '' entry_type);
          display_type = (case map_of (content_types cfg) entry_type of
                            Some c \<Rightarrow> (case type_name c of Some n \<Rightarrow> n | None \<Rightarrow> generic)
                          | None \<Rightarrow> generic);
          title = (if truthy (dict_get ai_meta ''title'' (PStr ''Untitled''))
                   then dict_get ai_meta ''title'' (PStr ''Untitled'') else PStr ''Untitled'');
          summary = (if truthy (dict_get ai_meta ''summary'' (PStr ''''))
                     then dict_get ai_meta ''summary'' (PStr '''') else PStr '''');
          frontmatter =
            [(''id'', PStr file_id),
             (''language'', dict_get ai_meta ''language'' (PStr ''en'')),
             (''title'', title),
             (''aliases'', PList [PStr original_filename]),
             (''date'', PStr (meta_date meta)),
             (''time'', PStr (meta_time meta)),
             (''type'', PStr display_type),
             (''tags'', PList (map PStr tags)),
             (''emotions'', dict_get ai_meta ''emotions'' (PList [])),
             (''characters'', dict_get ai_meta ''characters'' (PList [])),
             (''summary'', summary),
             (''related'', PStr ''''),
             (''focus'', PBool False)];
          md = ''---\<newline>'' @ yaml_dump ext frontmatter @ ''---\<newline>\<newline>## Transcript\<newline>\<newline>'' @ clean_text meta
      in if analysis \<noteq> [] then md @ ''\<newline>\<newline>## Analysis\<newline>\<newline>'' @ analysis else md)"

subsection \<open>The ingestion pipeline\<close>

text \<open>
  \<open>_run_ingestion_pipeline\<close> returns the path of the document it wrote, or raises; the
  second component is the file system it leaves behind.
\<close>

definition run_ingestion_pipeline ::
  "collaborators \<Rightarrow> pipeline_config \<Rightarrow> string \<Rightarrow> string \<Rightarrow> string \<Rightarrow> bool \<Rightarrow> filesystem
     \<Rightarrow> (exn + string) \<times> filesystem" where
  "run_ingestion_pipeline ext cfg text original_filename source_path is_text_file fs =
     (let meta = extract_metadata_from_text ext text source_path;
          entry_type = determine_content_type (content_types cfg) (clean_text meta);
          tags = generate_tags (clean_text meta) (spoken_tags meta) entry_type;
          ai_meta = enrich_content ext cfg (clean_text meta);
          type_config = map_of (content_types cfg) entry_type;
          analysis_required = (case type_config of None \<Rightarrow> False | Some c \<Rightarrow> enable_analysis c);
          analysis_content =
            (if analysis_required then run_analysis ext cfg type_config (clean_text meta) else '''');
          subfolder = (case type_config of
                         None \<Rightarrow> ''Personal Diary''
                       | Some c \<Rightarrow> (case target_subfolder c of None \<Rightarrow> ''Personal Diary'' | Some s \<Rightarrow> s));
          target_dir = path_join (output_path cfg) subfolder;
          base_id = meta_date meta @ ''-'' @ entry_type;
          counter = next_counter fs target_dir base_id 1;
          final_file_id = base_id @ ''-'' @ str_nat counter;
          final_path = path_join target_dir (final_filename base_id counter);
          md_content = construct_markdown ext cfg final_file_id meta ai_meta entry_type tags
                         analysis_content original_filename;
          fs1 = fs_write final_path md_content fs;
          missing_metadata = (dict_get ai_meta ''title'' PNone = PStr ''Untitled'');
          missing_analysis = (analysis_required \<and> analysis_content = [])
      in if missing_metadata \<or> missing_analysis then
           (if \<not> is_text_file then
              (case fs_copy (isdir ext (text_input_dir cfg)) final_path
                      (path_join (text_input_dir cfg) (final_filename base_id counter)) fs1 of
                 None \<Rightarrow> (Inl (Exception ''OSError''), fs1)
               | Some fs2 \<Rightarrow> (Inr final_path, fs2))
            else (Inr final_path, fs1))
         else
           (case sync_file ext cfg final_path type_config (PList (map PStr tags)) False of
              Inl e \<Rightarrow> (Inl e, fs1)
            | Inr success \<Rightarrow> (Inr final_path, fs1)))"

text \<open>\<open>process_audio\<close>; \<open>shutil.move\<close> of the source into the archive.\<close>

definition process_audio ::
  "collaborators \<Rightarrow> pipeline_config \<Rightarrow> string \<Rightarrow> filesystem \<Rightarrow> (exn + string option) \<times> filesystem" where
  "process_audio ext cfg filepath fs =
     (case transcribe ext filepath of
        None \<Rightarrow> (Inr None, fs)
      | Some transcript_text \<Rightarrow>
          if transcript_text = [] then (Inr None, fs)
          else case run_ingestion_pipeline ext cfg transcript_text (basename filepath) filepath False fs of
                 (Inl e, fs1) \<Rightarrow> (Inl e, fs1)
               | (Inr final_path, fs1) \<Rightarrow>
                   if final_path \<noteq> [] then
                     (case map_of fs1 filepath of
                        None \<Rightarrow> (Inl (Exception ''FileNotFoundError''), fs1)
                      | Some audio \<Rightarrow>
                          if isdir ext (archive_path cfg) then
                            (Inr (Some final_path),
                             fs_remove filepath
                               (fs_write (path_join (archive_path cfg) (basename filepath)) audio fs1))
                          else (Inl (Exception ''FileNotFoundError''), fs1))
                   else (Inr (Some final_path), fs1))"

subsection \<open>The repair pipeline\<close>

text \<open>
  The first part of \<open>_run_repair_pipeline\<close> after the parsing: the front matter with its
  title repaired and the flag \<open>file_changed\<close>, or \<open>None\<close> for the early return when the
  server is not healthy.
\<close>

definition repair_title ::
  "collaborators \<Rightarrow> pipeline_config \<Rightarrow> pydict \<Rightarrow> string \<Rightarrow> (pydict \<times> bool) option" where
  "repair_title ext cfg fm body_text =
     (let current_title = dict_get fm ''title'' (PStr ''Untitled'')
      in if current_title = PStr ''Untitled'' \<or> current_title = PNone \<or> current_title = PStr ''null'' then
           (let new_meta = enrich_content ext cfg body_text
            in if dict_get new_meta ''title'' PNone \<noteq> PStr ''Untitled'' then
                 Some (AList.update ''characters'' (dict_get new_meta ''characters'' (PList []))
                        (AList.update ''emotions'' (dict_get new_meta ''emotions'' (PList []))
                          (AList.update ''summary'' (dict_get new_meta ''summary'' (PStr ''''))
                            (AList.update ''title'' (dict_get new_meta ''title'' PNone) fm))), True)
               else if \<not> check_health ext then None
               else Some (AList.update ''title''
                            (PStr (strip (''Recovered Entry '' @ format_value ext (dict_get fm ''date'' (PStr '''')))))
                            fm, True))
         else Some (fm, False))"

text \<open>The text written back: the front matter, the transcript and the analysis section.\<close>

definition repaired_content ::
  "collaborators \<Rightarrow> string \<Rightarrow> string list \<Rightarrow> string \<Rightarrow> pydict \<Rightarrow> string \<Rightarrow> string" where
  "repaired_content ext content parts body_text fm new_analysis_section =
     ''---\<newline>'' @ yaml_dump ext fm @ ''---\<newline>\<newline>## Transcript\<newline>\<newline>'' @ body_text
     @ (if contains ''## Analysis'' content
        then ''\<newline>\<newline>## Analysis'' @ last (split_on ''## Analysis'' (parts ! 2))
        else new_analysis_section)"

definition analysis_section ::
  "collaborators \<Rightarrow> pipeline_config \<Rightarrow> string \<Rightarrow> string \<Rightarrow> type_data option \<Rightarrow> string" where
  "analysis_section ext cfg content body_text type_config =
     (let analysis_required = (case type_config of None \<Rightarrow> False | Some c \<Rightarrow> enable_analysis c);
          analysis_text = (if analysis_required \<and> \<not> contains ''## Analysis'' content
                           then run_analysis ext cfg type_config body_text else '''')
      in if analysis_text \<noteq> [] then ''\<newline>\<newline>## Analysis\<newline>\<newline>'' @ analysis_text else '''')"

text \<open>The rest of it: analysis, rewriting the file, sync, and the move to the knowledge folder.\<close>

definition repair_finish ::
  "collaborators \<Rightarrow> pipeline_config \<Rightarrow> string \<Rightarrow> string \<Rightarrow> string list \<Rightarrow> string \<Rightarrow> pydict \<Rightarrow> pydict \<Rightarrow> bool
     \<Rightarrow> filesystem \<Rightarrow> (exn + string option) \<times> filesystem" where
  "repair_finish ext cfg filepath content parts body_text fm0 fm file_changed0 fs =
     (let entry_type = dict_get fm0 ''type'' (PStr ''journal_entry'');
          tags = dict_get fm0 ''tags'' (PList [])
      in case lookup_type cfg entry_type of
           Inl e \<Rightarrow> (Inl e, fs)
         | Inr type_config \<Rightarrow>
            (let analysis_required = (case type_config of None \<Rightarrow> False | Some c \<Rightarrow> enable_analysis c);
                 has_analysis = contains ''## Analysis'' content;
                 new_analysis_section = analysis_section ext cfg content body_text type_config;
                 file_changed = (file_changed0 \<or> new_analysis_section \<noteq> []);
                 new_content = repaired_content ext content parts body_text fm new_analysis_section;
                 fs1 = (if file_changed then fs_write filepath new_content fs else fs)
             in case sync_file ext cfg filepath type_config tags (truthy (dict_get fm ''focus'' (PBool False))) of
                  Inl e \<Rightarrow> (Inl e, fs1)
                | Inr success \<Rightarrow>
                    (let is_fixed = (dict_get fm ''title'' PNone \<noteq> PStr ''Untitled''
                                     \<and> (\<not> analysis_required \<or> has_analysis \<or> new_analysis_section \<noteq> []));
                         subfolder = (case type_config of
                                        None \<Rightarrow> ''Personal Diary''
                                      | Some c \<Rightarrow> (case target_subfolder c of
                                                    None \<Rightarrow> ''Personal Diary'' | Some s \<Rightarrow> s));
                         official_path = path_join (path_join (output_path cfg) subfolder) (basename filepath)
                     in if is_fixed \<and> success then
                          (case fs_copy (isdir ext (path_join (output_path cfg) subfolder))
                                  filepath official_path fs1 of
                             None \<Rightarrow> (Inr (Some filepath), fs1)
                           | Some fs2 \<Rightarrow> (Inr (Some official_path), fs_remove filepath fs2))
                        else (Inr (Some filepath), fs1))))"

definition body_text_of :: "string list \<Rightarrow> string" where
  "body_text_of parts =
     (let body_parts = split_on ''## Transcript'' (parts ! 2)
      in if length body_parts > 1
         then strip (hd (split_on ''## Analysis'' (last body_parts)))
         else strip (parts ! 2))"

definition run_repair_pipeline ::
  "collaborators \<Rightarrow> pipeline_config \<Rightarrow> string \<Rightarrow> string \<Rightarrow> filesystem \<Rightarrow> (exn + string option) \<times> filesystem" where
  "run_repair_pipeline ext cfg filepath content fs =
     (let parts = split_on ''---'' content
      in if length parts < 3 then (Inr None, fs)
         else
           (let frontmatter_str = parts ! 1;
                body_text = body_text_of parts
            in case yaml_safe_load ext frontmatter_str of
                 None \<Rightarrow> (Inr None, fs)
               | Some (PDict fm) \<Rightarrow>
                   (case repair_title ext cfg fm body_text of
                      None \<Rightarrow> (Inr (Some filepath), fs)
                    | Some (fm', file_changed) \<Rightarrow>
                        repair_finish ext cfg filepath content parts body_text fm fm' file_changed fs)
               | Some _ \<Rightarrow> (Inl (Exception ''AttributeError''), fs)))"

subsection \<open>Text input\<close>

text \<open>
  \<open>process_text_file\<close>: every exception is caught and gives \<open>None\<close>; removing the source
  cannot fail the call.
\<close>

definition process_text_file ::
  "collaborators \<Rightarrow> pipeline_config \<Rightarrow> string \<Rightarrow> filesystem \<Rightarrow> string option \<times> filesystem" where
  "process_text_file ext cfg filepath fs =
     (case map_of fs filepath of
        None \<Rightarrow> (None, fs)
      | Some content \<Rightarrow>
          if startswith content ''---'' then
            (case run_repair_pipeline ext cfg filepath content fs of
               (Inl e, fs1) \<Rightarrow> (None, fs1)
             | (Inr result, fs1) \<Rightarrow> (result, fs1))
          else
            (case run_ingestion_pipeline ext cfg content (basename filepath) filepath True fs of
               (Inl e, fs1) \<Rightarrow> (None, fs1)
             | (Inr final_path, fs1) \<Rightarrow>
                 if final_path \<noteq> [] then (Some final_path, fs_remove filepath fs1)
                 else (Some final_path, fs1)))"

subsection \<open>A small installation\<close>

text \<open>
  One content type, marked default and without analysis; collaborators whose chat, health
  and upload answers are given, with a metadata extractor that dates every text 2025-01-01,
  a JSON reader that takes the whole answer for the title and a YAML reader and writer
  for a front matter of a title and a date; every folder exists.
\<close>

definition example_config :: pipeline_config where
  "example_config =
     \<lparr>content_types =
        [(''journal'', \<lparr>is_default = True, detection_keywords = [], enable_analysis = False,
            target_subfolder = None, collection_id = None, type_name = None,
            system_prompt = '''', user_prompt = ''''\<rparr>)],
      output_path = ''/out'', archive_path = ''/archive'', text_input_dir = ''/in'',
      metadata_prompt_system = '''', metadata_prompt_user = '''', focus_mode_id = None\<rparr>"

definition example_collaborators ::
  "string \<Rightarrow> nat option \<Rightarrow> string option \<Rightarrow> collaborators" where
  "example_collaborators answer health upload_id =
     \<lparr>chat_completion = (\<lambda>sys_prompt user_prompt. answer),
      health_status = health,
      upload_file = (\<lambda>filepath filename. upload_id),
      link_to_collection = (\<lambda>fid cid. True),
      transcribe = (\<lambda>filepath. Some ''spoken words''),
      json_loads = (\<lambda>s. if s = [] then None else Some (PDict [(''title'', PStr s)])),
      yaml_safe_load = (\<lambda>s. if startswith (strip s) ''title: ''
                             then Some (PDict [(''title'', PStr (drop 7 (strip s))), (''date'', PStr ''2025-01-01'')])
                             else None),
      yaml_dump = (\<lambda>fm. ''title: '' @ (case dict_get fm ''title'' PNone of PStr t \<Rightarrow> t | _ \<Rightarrow> ''null'') @ ''\<newline>''),
      str_other = (\<lambda>v. ''None''),
      title_case = (\<lambda>s. s),
      extract_metadata_from_text =
        (\<lambda>text filepath. \<lparr>meta_date = ''2025-01-01'', meta_time = ''unknown'', clean_text = text, spoken_tags = []\<rparr>),
      isdir = (\<lambda>folder. True)\<rparr>"

section \<open>Properties of the pipeline\<close>

lemma map_of_fs_write: "map_of (fs_write path content fs) q = (if q = path then Some content else map_of fs q)"
  by (simp add: fs_write_def update_conv')

lemma map_of_fs_remove: "map_of (fs_remove path fs) q = (if q = path then None else map_of fs q)"
  by (simp add: fs_remove_def delete_conv')

lemma fs_exists_map_of: "fs_exists fs path \<longleftrightarrow> map_of fs path \<noteq> None"
  by (simp add: fs_exists_def map_of_eq_None_iff)

lemma repair_finish_changed:
  assumes "lookup_type cfg (dict_get fm0 ''type'' (PStr ''journal_entry'')) = Inr type_config"
  shows "map_of (snd (repair_finish ext cfg filepath content parts body_text fm0 fm True fs)) filepath
           = Some (repaired_content ext content parts body_text fm
                     (analysis_section ext cfg content body_text type_config))
         \<or> (\<exists>official. fst (repair_finish ext cfg filepath content parts body_text fm0 fm True fs)
                          = Inr (Some official)
               \<and> map_of (snd (repair_finish ext cfg filepath content parts body_text fm0 fm True fs)) official
                   = Some (repaired_content ext content parts body_text fm
                             (analysis_section ext cfg content body_text type_config)))"
proof -
  let ?new = "repaired_content ext content parts body_text fm
                (analysis_section ext cfg content body_text type_config)"
  let ?fs1 = "fs_write filepath ?new fs"
  have fs1: "map_of ?fs1 filepath = Some ?new" by (simp add: map_of_fs_write)
  have copy: "map_of (fs_remove filepath fs2) official = Some ?new"
    if "fs_copy present filepath official ?fs1 = Some fs2" for present official fs2
  proof -
    from that fs1 have "official \<noteq> filepath" and "fs2 = fs_write official ?new ?fs1"
      by (auto simp: fs_copy_def split: if_splits)
    then show ?thesis by (simp add: map_of_fs_remove map_of_fs_write)
  qed
  show ?thesis
    using assms fs1 copy
    by (auto simp: repair_finish_def Let_def split: sum.splits option.splits)
qed

text \<open>
  C8. Take a repair input that parses (at least three parts between the \<open>---\<close> marks, a
  front matter that loads as a mapping) whose title is still the sentinel and whose
  re-enrichment yields no title. If the health check reports the collaborator unreachable,
  the call returns the path and leaves every file as it was. If it reports it reachable,
  the title becomes the fallback \<open>Recovered Entry\<close> followed by the document's date, and the
  file is rewritten with that front matter; the rewritten text is then found at the path,
  or at the path in the knowledge folder that the call returns when it moved the file.
\<close>

theorem repair_unreachable_untouched_reachable_fallback:
  assumes "3 \<le> length (split_on ''---'' content)"
    and "yaml_safe_load ext (split_on ''---'' content ! 1) = Some (PDict fm)"
    and "dict_get fm ''title'' (PStr ''Untitled'') \<in> {PStr ''Untitled'', PNone, PStr ''null''}"
    and "dict_get (enrich_content ext cfg (body_text_of (split_on ''---'' content))) ''title'' PNone
           = PStr ''Untitled''"
  shows "(\<not> check_health ext \<longrightarrow>
            run_repair_pipeline ext cfg filepath content fs = (Inr (Some filepath), fs))
       \<and> (check_health ext \<longrightarrow>
            (\<forall>type_config. lookup_type cfg (dict_get fm ''type'' (PStr ''journal_entry'')) = Inr type_config \<longrightarrow>
               (\<exists>fm' new_content.
                  fm' = AList.update ''title''
                          (PStr (strip (''Recovered Entry '' @ format_value ext (dict_get fm ''date'' (PStr '''')))))
                          fm
                \<and> new_content = repaired_content ext content (split_on ''---'' content)
                      (body_text_of (split_on ''---'' content)) fm'
                      (analysis_section ext cfg content (body_text_of (split_on ''---'' content)) type_config)
                \<and> (map_of (snd (run_repair_pipeline ext cfg filepath content fs)) filepath = Some new_content
                   \<or> (\<exists>official. fst (run_repair_pipeline ext cfg filepath content fs) = Inr (Some official)
                         \<and> map_of (snd (run_repair_pipeline ext cfg filepath content fs)) official
                             = Some new_content)))))"
proof (intro conjI impI allI)
  assume "\<not> check_health ext"
  then have "repair_title ext cfg fm (body_text_of (split_on ''---'' content)) = None"
    using assms(3,4) by (auto simp: repair_title_def Let_def)
  then show "run_repair_pipeline ext cfg filepath content fs = (Inr (Some filepath), fs)"
    using assms(1,2) by (simp add: run_repair_pipeline_def Let_def)
next
  fix type_config
  assume h: "check_health ext"
    and t: "lookup_type cfg (dict_get fm ''type'' (PStr ''journal_entry'')) = Inr type_config"
  let ?parts = "split_on ''---'' content"
  let ?body = "body_text_of ?parts"
  let ?fm = "AList.update ''title''
               (PStr (strip (''Recovered Entry '' @ format_value ext (dict_get fm ''date'' (PStr '''')))))
               fm"
  have "repair_title ext cfg fm ?body = Some (?fm, True)"
    using h assms(3,4) by (auto simp: repair_title_def Let_def)
  then have run: "run_repair_pipeline ext cfg filepath content fs
      = repair_finish ext cfg filepath content ?parts ?body fm ?fm True fs"
    using assms(1,2) by (simp add: run_repair_pipeline_def Let_def)
  from repair_finish_changed [OF t, of ext filepath content ?parts ?body ?fm fs]
  show "\<exists>fm' new_content.
          fm' = ?fm
        \<and> new_content = repaired_content ext content ?parts ?body fm'
              (analysis_section ext cfg content ?body type_config)
        \<and> (map_of (snd (run_repair_pipeline ext cfg filepath content fs)) filepath = Some new_content
           \<or> (\<exists>official. fst (run_repair_pipeline ext cfg filepath content fs) = Inr (Some official)
                 \<and> map_of (snd (run_repair_pipeline ext cfg filepath content fs)) official = Some new_content))"
    unfolding run by simp
qed

theorem repair_unreachable_untouched_reachable_fallback_witness:
  "run_repair_pipeline (example_collaborators '''' None None) example_config ''/in/d.md''
     ''---\<newline>title: Untitled\<newline>---\<newline>\<newline>## Transcript\<newline>\<newline>hello world''
     [(''/in/d.md'', ''---\<newline>title: Untitled\<newline>---\<newline>\<newline>## Transcript\<newline>\<newline>hello world'')]
   = (Inr (Some ''/in/d.md''),
      [(''/in/d.md'', ''---\<newline>title: Untitled\<newline>---\<newline>\<newline>## Transcript\<newline>\<newline>hello world'')])
   \<and> run_repair_pipeline (example_collaborators '''' (Some 200) None) example_config ''/in/d.md''
     ''---\<newline>title: Untitled\<newline>---\<newline>\<newline>## Transcript\<newline>\<newline>hello world''
     [(''/in/d.md'', ''---\<newline>title: Untitled\<newline>---\<newline>\<newline>## Transcript\<newline>\<newline>hello world'')]
   = (Inr (Some ''/in/d.md''),
      [(''/in/d.md'',
        ''---\<newline>title: Recovered Entry 2025-01-01\<newline>---\<newline>\<newline>## Transcript\<newline>\<newline>hello world'')])"
proof -
  let ?doc = "''---\<newline>title: Untitled\<newline>---\<newline>\<newline>## Transcript\<newline>\<newline>hello world''"
  let ?ext = "example_collaborators '''' None None"
  let ?fm = "[(''title'', PStr ''Untitled''), (''date'', PStr ''2025-01-01'')]"
  have p: "3 \<le> length (split_on ''---'' ?doc)" by code_simp
  have y: "yaml_safe_load ?ext (split_on ''---'' ?doc ! 1) = Some (PDict ?fm)" by code_simp
  have s: "dict_get ?fm ''title'' (PStr ''Untitled'') \<in> {PStr ''Untitled'', PNone, PStr ''null''}"
    by (simp add: dict_get_def)
  have e: "dict_get (enrich_content ?ext example_config (body_text_of (split_on ''---'' ?doc))) ''title'' PNone
      = PStr ''Untitled''" by code_simp
  have h: "\<not> check_health ?ext" by (simp add: check_health_def example_collaborators_def)
  have unreachable: "run_repair_pipeline ?ext example_config ''/in/d.md'' ?doc [(''/in/d.md'', ?doc)]
      = (Inr (Some ''/in/d.md''), [(''/in/d.md'', ?doc)])"
    using repair_unreachable_untouched_reachable_fallback [OF p y s e] h by blast
  have reachable: "run_repair_pipeline (example_collaborators '''' (Some 200) None) example_config ''/in/d.md''
      ?doc [(''/in/d.md'', ?doc)]
    = (Inr (Some ''/in/d.md''),
      [(''/in/d.md'',
        ''---\<newline>title: Recovered Entry 2025-01-01\<newline>---\<newline>\<newline>## Transcript\<newline>\<newline>hello world'')])"
    by code_simp
  from unreachable reachable show ?thesis by (rule conjI)
qed

text \<open>
  What \<open>process_text_file\<close> does with the source of a raw text: whenever the ingestion
  returns a path, the source is removed, whether the document is complete or not.
\<close>

lemma final_path_not_Nil: "path_join target_dir (final_filename base_id counter) \<noteq> []"
  by (auto simp: path_join_def final_filename_def)

lemma process_text_file_raw:
  assumes "map_of fs filepath = Some content" and "\<not> startswith content ''---''"
    and "run_ingestion_pipeline ext cfg content (basename filepath) filepath True fs = (Inr final_path, fs1)"
  shows "process_text_file ext cfg filepath fs = (Some final_path, fs_remove filepath fs1)"
proof -
  have "final_path \<noteq> []"
    using assms(3) final_path_not_Nil
    by (auto simp: run_ingestion_pipeline_def Let_def split: if_splits sum.splits option.splits)
  with assms show ?thesis by (simp add: process_text_file_def)
qed

text \<open>
  C2, the code at a failing input. The text file \<open>/in/note.txt\<close> is ingested while the
  enrichment collaborator gives no answer: the title is the sentinel, so the document is
  only partially complete, and it is written to the knowledge folder; yet the source file is
  removed from the text-input root, which is left empty.
\<close>

theorem process_text_file_partial_removes_source:
  "dict_get (enrich_content (example_collaborators '''' None None) example_config ''hello world'') ''title'' PNone
     = PStr ''Untitled''
   \<and> process_text_file (example_collaborators '''' None None) example_config ''/in/note.txt''
       [(''/in/note.txt'', ''hello world'')]
     = (Some ''/out/Personal Diary/2025-01-01-journal-1.md'',
        [(''/out/Personal Diary/2025-01-01-journal-1.md'',
          ''---\<newline>title: Untitled\<newline>---\<newline>\<newline>## Transcript\<newline>\<newline>hello world'')])"
  by code_simp

text \<open>
  C3, the code at a failing input. An audio file and a text file are ingested with an
  enrichment that gives a title and an upload that always fails. \<open>sync_file\<close> returns
  \<open>False\<close> and nothing is raised, and the document stays in the knowledge folder; but no
  copy of it appears in the text-input root \<open>/in\<close>.
\<close>

theorem ingestion_sync_failure_leaves_no_retry_copy:
  "sync_file (example_collaborators ''A day'' (Some 200) None) example_config
       ''/out/Personal Diary/2025-01-01-journal-1.md'' None (PList []) False = Inr False
   \<and> process_audio (example_collaborators ''A day'' (Some 200) None) example_config ''/audio/a.wav''
       [(''/audio/a.wav'', ''RIFF'')]
     = (Inr (Some ''/out/Personal Diary/2025-01-01-journal-1.md''),
        [(''/out/Personal Diary/2025-01-01-journal-1.md'',
          ''---\<newline>title: A day\<newline>---\<newline>\<newline>## Transcript\<newline>\<newline>spoken words''),
         (''/archive/a.wav'', ''RIFF'')])
   \<and> process_text_file (example_collaborators ''A day'' (Some 200) None) example_config ''/in/note.txt''
       [(''/in/note.txt'', ''hello world'')]
     = (Some ''/out/Personal Diary/2025-01-01-journal-1.md'',
        [(''/out/Personal Diary/2025-01-01-journal-1.md'',
          ''---\<newline>title: A day\<newline>---\<newline>\<newline>## Transcript\<newline>\<newline>hello world'')])"
  by code_simp

subsection \<open>The name of the persisted document\<close>

text \<open>
  The folder and the identifier \<open>date-type\<close> that the ingestion computes for a text, the
  path with the counter \<open>n\<close>, and the counter that the search over the files chooses.
\<close>

definition doc_entry_type :: "collaborators \<Rightarrow> pipeline_config \<Rightarrow> string \<Rightarrow> string \<Rightarrow> string" where
  "doc_entry_type ext cfg text source_path =
     determine_content_type (content_types cfg) (clean_text (extract_metadata_from_text ext text source_path))"

definition doc_target_dir :: "collaborators \<Rightarrow> pipeline_config \<Rightarrow> string \<Rightarrow> string \<Rightarrow> string" where
  "doc_target_dir ext cfg text source_path =
     path_join (output_path cfg)
       (case map_of (content_types cfg) (doc_entry_type ext cfg text source_path) of
          None \<Rightarrow> ''Personal Diary''
        | Some c \<Rightarrow> (case target_subfolder c of None \<Rightarrow> ''Personal Diary'' | Some s \<Rightarrow> s))"

definition doc_base_id :: "collaborators \<Rightarrow> pipeline_config \<Rightarrow> string \<Rightarrow> string \<Rightarrow> string" where
  "doc_base_id ext cfg text source_path =
     meta_date (extract_metadata_from_text ext text source_path) @ ''-'' @ doc_entry_type ext cfg text source_path"

definition doc_path :: "collaborators \<Rightarrow> pipeline_config \<Rightarrow> string \<Rightarrow> string \<Rightarrow> nat \<Rightarrow> string" where
  "doc_path ext cfg text source_path n =
     path_join (doc_target_dir ext cfg text source_path)
       (final_filename (doc_base_id ext cfg text source_path) n)"

definition doc_counter :: "collaborators \<Rightarrow> pipeline_config \<Rightarrow> string \<Rightarrow> string \<Rightarrow> filesystem \<Rightarrow> nat" where
  "doc_counter ext cfg text source_path fs =
     next_counter fs (doc_target_dir ext cfg text source_path) (doc_base_id ext cfg text source_path) 1"

lemma next_counter_eq:
  assumes "c \<le> n" and "\<not> fs_exists fs (path_join target_dir (final_filename base_id n))"
    and "\<forall>k. c \<le> k \<and> k < n \<longrightarrow> fs_exists fs (path_join target_dir (final_filename base_id k))"
  shows "next_counter fs target_dir base_id c = n"
proof -
  let ?m = "next_counter fs target_dir base_id c"
  have ge: "c \<le> ?m" by (rule next_counter_ge)
  have free: "\<not> fs_exists fs (path_join target_dir (final_filename base_id ?m))"
    by (rule next_counter_free)
  have "\<not> ?m < n" using ge free assms(3) by blast
  moreover have "\<not> n < ?m" using assms(1,2) next_counter_least [of c n fs target_dir base_id] by blast
  ultimately show ?thesis by simp
qed

lemma path_join_suffix: "\<exists>pre. path_join a f = pre @ f"
  by (auto simp: path_join_def intro: exI [of _ "[]"])

lemma path_join_same_length:
  assumes "path_join a f = path_join b g" and "length f = length g"
  shows "f = g"
proof -
  obtain x y where "path_join a f = x @ f" "path_join b g = y @ g"
    using path_join_suffix by metis
  with assms show ?thesis by simp
qed

lemma str_nat_digit: "n < 10 \<Longrightarrow> length (str_nat n) = 1"
  by (subst str_nat.simps) simp

lemma path_join_final_distinct:
  assumes "i < 10" and "j < 10" and "i \<noteq> j"
  shows "path_join a (final_filename base_id i) \<noteq> path_join b (final_filename base_id j)"
proof
  assume eq: "path_join a (final_filename base_id i) = path_join b (final_filename base_id j)"
  have "length (final_filename base_id i) = length (final_filename base_id j)"
    using assms(1,2) by (simp add: final_filename_def str_nat_digit)
  with eq have "final_filename base_id i = final_filename base_id j" by (rule path_join_same_length)
  then have "i = j" by (rule final_filename_inj)
  with assms(3) show False by simp
qed

text \<open>The files after an ingestion: the document, and its copy in the retry root if one is made.\<close>

lemma run_ingestion_pipeline_files:
  assumes "run_ingestion_pipeline ext cfg text original_filename source_path is_text_file fs = (r, fs')"
  shows "(r = Inr (doc_path ext cfg text source_path (doc_counter ext cfg text source_path fs))
            \<or> (\<exists>e. r = Inl e))
       \<and> (\<exists>md. fs' = fs_write (doc_path ext cfg text source_path (doc_counter ext cfg text source_path fs)) md fs
             \<or> fs' = fs_write (path_join (text_input_dir cfg)
                          (final_filename (doc_base_id ext cfg text source_path)
                             (doc_counter ext cfg text source_path fs))) md
                      (fs_write (doc_path ext cfg text source_path (doc_counter ext cfg text source_path fs)) md fs))"
  using assms
  unfolding run_ingestion_pipeline_def doc_path_def doc_counter_def doc_target_dir_def doc_base_id_def
    doc_entry_type_def Let_def fs_copy_def
  by (auto simp: map_of_fs_write split: if_splits sum.splits option.splits)

lemma fs_exists_fs_write: "fs_exists (fs_write path content fs) q \<longleftrightarrow> q = path \<or> fs_exists fs q"
  by (auto simp: fs_exists_map_of map_of_fs_write)

lemma doc_path_same_key:
  assumes "meta_date (extract_metadata_from_text ext text' source_path') = meta_date (extract_metadata_from_text ext text source_path)"
    and "doc_entry_type ext cfg text' source_path' = doc_entry_type ext cfg text source_path"
  shows "doc_path ext cfg text' source_path' = doc_path ext cfg text source_path"
    and "doc_counter ext cfg text' source_path' = doc_counter ext cfg text source_path"
  using assms
  by (auto simp: doc_path_def doc_counter_def doc_target_dir_def doc_base_id_def fun_eq_iff)

lemma run_ingestion_pipeline_written:
  "fs_exists (snd (run_ingestion_pipeline ext cfg text original_filename source_path is_text_file fs))
     (doc_path ext cfg text source_path (doc_counter ext cfg text source_path fs))"
proof -
  obtain r fs' where run: "run_ingestion_pipeline ext cfg text original_filename source_path is_text_file fs = (r, fs')"
    by (cases "run_ingestion_pipeline ext cfg text original_filename source_path is_text_file fs")
  from run_ingestion_pipeline_files [OF run] show ?thesis
    unfolding run by (auto simp: fs_exists_fs_write)
qed

lemma run_ingestion_pipeline_keeps_free:
  assumes "doc_counter ext cfg text source_path fs < 10" and "k < 10"
    and "k \<noteq> doc_counter ext cfg text source_path fs"
    and "\<not> fs_exists fs (doc_path ext cfg text source_path k)"
  shows "\<not> fs_exists (snd (run_ingestion_pipeline ext cfg text original_filename source_path is_text_file fs))
           (doc_path ext cfg text source_path k)"
proof -
  let ?n = "doc_counter ext cfg text source_path fs"
  obtain r fs' where run: "run_ingestion_pipeline ext cfg text original_filename source_path is_text_file fs = (r, fs')"
    by (cases "run_ingestion_pipeline ext cfg text original_filename source_path is_text_file fs")
  have a: "doc_path ext cfg text source_path k \<noteq> doc_path ext cfg text source_path ?n"
    unfolding doc_path_def using assms(2,1,3) by (rule path_join_final_distinct)
  have b: "doc_path ext cfg text source_path k
      \<noteq> path_join (text_input_dir cfg) (final_filename (doc_base_id ext cfg text source_path) ?n)"
    unfolding doc_path_def using assms(2,1,3) by (rule path_join_final_distinct)
  from run_ingestion_pipeline_files [OF run] a b assms(4) show ?thesis
    unfolding run by (auto simp: fs_exists_fs_write)
qed

lemma run_ingestion_pipeline_keeps_files:
  "fs_exists fs q \<Longrightarrow>
   fs_exists (snd (run_ingestion_pipeline ext cfg text original_filename source_path is_text_file fs)) q"
proof -
  assume q: "fs_exists fs q"
  obtain r fs' where run: "run_ingestion_pipeline ext cfg text original_filename source_path is_text_file fs = (r, fs')"
    by (cases "run_ingestion_pipeline ext cfg text original_filename source_path is_text_file fs")
  from run_ingestion_pipeline_files [OF run] q show ?thesis
    unfolding run by (auto simp: fs_exists_fs_write)
qed

lemma doc_counter_eq:
  assumes "1 \<le> n" and "\<not> fs_exists fs (doc_path ext cfg text source_path n)"
    and "\<forall>k. 1 \<le> k \<and> k < n \<longrightarrow> fs_exists fs (doc_path ext cfg text source_path k)"
  shows "doc_counter ext cfg text source_path fs = n"
  using assms unfolding doc_counter_def doc_path_def by (rule next_counter_eq)

text \<open>
  C7 (as amended). For every date, content type and state of the target subfolder, the
  document is persisted as \<open>date-type-n.md\<close> in the subfolder, where \<open>n\<close> is the smallest
  positive integer for which that file does not exist yet. Consequently three documents of
  one date and content type, created one after the other in a subfolder that holds none of
  the files numbered 1, 2 and 3 for them, get the numbers 1, 2 and 3.
\<close>

theorem ingestion_filename_smallest_unused:
  "(1 \<le> doc_counter ext cfg text source_path fs
    \<and> \<not> fs_exists fs (doc_path ext cfg text source_path (doc_counter ext cfg text source_path fs))
    \<and> (\<forall>k. 1 \<le> k \<and> k < doc_counter ext cfg text source_path fs \<longrightarrow>
           fs_exists fs (doc_path ext cfg text source_path k))
    \<and> fs_exists (snd (run_ingestion_pipeline ext cfg text original_filename source_path is_text_file fs))
         (doc_path ext cfg text source_path (doc_counter ext cfg text source_path fs))
    \<and> (fst (run_ingestion_pipeline ext cfg text original_filename source_path is_text_file fs)
          = Inr (doc_path ext cfg text source_path (doc_counter ext cfg text source_path fs))
        \<or> (\<exists>e. fst (run_ingestion_pipeline ext cfg text original_filename source_path is_text_file fs) = Inl e)))
   \<and> (meta_date (extract_metadata_from_text ext text2 source2) = meta_date (extract_metadata_from_text ext text source_path)
      \<and> doc_entry_type ext cfg text2 source2 = doc_entry_type ext cfg text source_path
      \<and> meta_date (extract_metadata_from_text ext text3 source3) = meta_date (extract_metadata_from_text ext text source_path)
      \<and> doc_entry_type ext cfg text3 source3 = doc_entry_type ext cfg text source_path
      \<and> \<not> fs_exists fs (doc_path ext cfg text source_path 1)
      \<and> \<not> fs_exists fs (doc_path ext cfg text source_path 2)
      \<and> \<not> fs_exists fs (doc_path ext cfg text source_path 3)
      \<longrightarrow> doc_counter ext cfg text source_path fs = 1
        \<and> doc_counter ext cfg text2 source2
             (snd (run_ingestion_pipeline ext cfg text original_filename source_path is_text_file fs)) = 2
        \<and> doc_counter ext cfg text3 source3
             (snd (run_ingestion_pipeline ext cfg text2 original2 source2 is_text2
                (snd (run_ingestion_pipeline ext cfg text original_filename source_path is_text_file fs)))) = 3)"
proof (intro conjI impI)
  let ?n = "doc_counter ext cfg text source_path fs"
  let ?run = "run_ingestion_pipeline ext cfg text original_filename source_path is_text_file fs"
  show "1 \<le> ?n" unfolding doc_counter_def by (rule next_counter_ge)
  show "\<not> fs_exists fs (doc_path ext cfg text source_path ?n)"
    unfolding doc_counter_def doc_path_def by (rule next_counter_free)
  show "\<forall>k. 1 \<le> k \<and> k < ?n \<longrightarrow> fs_exists fs (doc_path ext cfg text source_path k)"
    unfolding doc_counter_def doc_path_def using next_counter_least by blast
  show "fs_exists (snd ?run) (doc_path ext cfg text source_path ?n)"
    by (rule run_ingestion_pipeline_written)
  show "fst ?run = Inr (doc_path ext cfg text source_path ?n) \<or> (\<exists>e. fst ?run = Inl e)"
    using run_ingestion_pipeline_files [of ext cfg "text" original_filename source_path is_text_file fs
        "fst ?run" "snd ?run"] by simp
next
  let ?P = "doc_path ext cfg text source_path"
  let ?fs1 = "snd (run_ingestion_pipeline ext cfg text original_filename source_path is_text_file fs)"
  let ?fs2 = "snd (run_ingestion_pipeline ext cfg text2 original2 source2 is_text2 ?fs1)"
  assume h: "meta_date (extract_metadata_from_text ext text2 source2) = meta_date (extract_metadata_from_text ext text source_path)
      \<and> doc_entry_type ext cfg text2 source2 = doc_entry_type ext cfg text source_path
      \<and> meta_date (extract_metadata_from_text ext text3 source3) = meta_date (extract_metadata_from_text ext text source_path)
      \<and> doc_entry_type ext cfg text3 source3 = doc_entry_type ext cfg text source_path
      \<and> \<not> fs_exists fs (?P 1) \<and> \<not> fs_exists fs (?P 2) \<and> \<not> fs_exists fs (?P 3)"
  then have p2: "doc_path ext cfg text2 source2 = ?P" and c2: "doc_counter ext cfg text2 source2 = doc_counter ext cfg text source_path"
    and p3: "doc_path ext cfg text3 source3 = ?P" and c3: "doc_counter ext cfg text3 source3 = doc_counter ext cfg text source_path"
    using doc_path_same_key by blast+
  have n1: "doc_counter ext cfg text source_path fs = 1"
    using h by (intro doc_counter_eq) auto
  have e1: "fs_exists ?fs1 (?P 1)"
    using run_ingestion_pipeline_written [of ext cfg "text" original_filename source_path is_text_file fs] n1
    by simp
  have f12: "\<not> fs_exists ?fs1 (?P 2)"
    using run_ingestion_pipeline_keeps_free [of ext cfg "text" source_path fs 2 original_filename is_text_file]
      h n1 by simp
  have f13: "\<not> fs_exists ?fs1 (?P 3)"
    using run_ingestion_pipeline_keeps_free [of ext cfg "text" source_path fs 3 original_filename is_text_file]
      h n1 by simp
  have n2': "doc_counter ext cfg text source_path ?fs1 = 2"
  proof (rule doc_counter_eq)
    show "\<forall>k. 1 \<le> k \<and> k < 2 \<longrightarrow> fs_exists ?fs1 (?P k)"
    proof (intro allI impI)
      fix k :: nat assume "1 \<le> k \<and> k < 2"
      then have "k = 1" by simp
      with e1 show "fs_exists ?fs1 (?P k)" by simp
    qed
  qed (use f12 in simp_all)
  then have n2: "doc_counter ext cfg text2 source2 ?fs1 = 2" using c2 by simp
  have e21: "fs_exists ?fs2 (?P 1)" using e1 by (rule run_ingestion_pipeline_keeps_files)
  have e22: "fs_exists ?fs2 (?P 2)"
    using run_ingestion_pipeline_written [of ext cfg text2 original2 source2 is_text2 ?fs1] n2 p2
    by simp
  have f23: "\<not> fs_exists ?fs2 (?P 3)"
    using run_ingestion_pipeline_keeps_free [of ext cfg text2 source2 ?fs1 3 original2 is_text2] n2 p2 f13
    by simp
  have "doc_counter ext cfg text source_path ?fs2 = 3"
  proof (rule doc_counter_eq)
    show "\<forall>k. 1 \<le> k \<and> k < 3 \<longrightarrow> fs_exists ?fs2 (?P k)"
    proof (intro allI impI)
      fix k :: nat assume "1 \<le> k \<and> k < 3"
      then have "k = 1 \<or> k = 2" by auto
      with e21 e22 show "fs_exists ?fs2 (?P k)" by auto
    qed
  qed (use f23 in simp_all)
  then have n3: "doc_counter ext cfg text3 source3 ?fs2 = 3" using c3 by simp
  show "doc_counter ext cfg text source_path fs = 1" by (rule n1)
  show "doc_counter ext cfg text2 source2 ?fs1 = 2" by (rule n2)
  show "doc_counter ext cfg text3 source3 ?fs2 = 3" by (rule n3)
qed

theorem ingestion_filename_smallest_unused_witness:
  "fst (run_ingestion_pipeline (example_collaborators ''A day'' (Some 200) (Some ''id'')) example_config
          ''first'' ''a.txt'' ''/in/a.txt'' True [])
     = Inr ''/out/Personal Diary/2025-01-01-journal-1.md''
   \<and> doc_counter (example_collaborators ''A day'' (Some 200) (Some ''id'')) example_config ''first'' ''/in/a.txt'' [] = 1
   \<and> doc_counter (example_collaborators ''A day'' (Some 200) (Some ''id'')) example_config ''second'' ''/in/b.txt''
         (snd (run_ingestion_pipeline (example_collaborators ''A day'' (Some 200) (Some ''id'')) example_config
                 ''first'' ''a.txt'' ''/in/a.txt'' True [])) = 2
   \<and> doc_counter (example_collaborators ''A day'' (Some 200) (Some ''id'')) example_config ''third'' ''/in/c.txt''
         (snd (run_ingestion_pipeline (example_collaborators ''A day'' (Some 200) (Some ''id'')) example_config
                 ''second'' ''b.txt'' ''/in/b.txt'' True
                 (snd (run_ingestion_pipeline (example_collaborators ''A day'' (Some 200) (Some ''id'')) example_config
                         ''first'' ''a.txt'' ''/in/a.txt'' True [])))) = 3"
proof -
  let ?E = "example_collaborators ''A day'' (Some 200) (Some ''id'')"
  have h: "meta_date (extract_metadata_from_text ?E ''second'' ''/in/b.txt'')
             = meta_date (extract_metadata_from_text ?E ''first'' ''/in/a.txt'')
      \<and> doc_entry_type ?E example_config ''second'' ''/in/b.txt'' = doc_entry_type ?E example_config ''first'' ''/in/a.txt''
      \<and> meta_date (extract_metadata_from_text ?E ''third'' ''/in/c.txt'')
             = meta_date (extract_metadata_from_text ?E ''first'' ''/in/a.txt'')
      \<and> doc_entry_type ?E example_config ''third'' ''/in/c.txt'' = doc_entry_type ?E example_config ''first'' ''/in/a.txt''
      \<and> \<not> fs_exists [] (doc_path ?E example_config ''first'' ''/in/a.txt'' 1)
      \<and> \<not> fs_exists [] (doc_path ?E example_config ''first'' ''/in/a.txt'' 2)
      \<and> \<not> fs_exists [] (doc_path ?E example_config ''first'' ''/in/a.txt'' 3)"
    by code_simp
  have r: "fst (run_ingestion_pipeline ?E example_config ''first'' ''a.txt'' ''/in/a.txt'' True [])
     = Inr ''/out/Personal Diary/2025-01-01-journal-1.md''"
    by code_simp
  from ingestion_filename_smallest_unused
    [of ?E example_config "''first''" "''/in/a.txt''" "[]" "''a.txt''" True "''second''" "''/in/b.txt''"
        "''third''" "''/in/c.txt''" "''b.txt''" True] h r
  show ?thesis by blast
qed

text \<open>
  The claim as stated fails in a subfolder that already holds the file numbered 1: three
  documents created one after the other get the numbers 2, 3 and 4.
\<close>

theorem ingestion_three_documents_counterexample:
  "fst (run_ingestion_pipeline (example_collaborators ''A day'' (Some 200) (Some ''id'')) example_config
          ''first'' ''a.txt'' ''/in/a.txt'' True
          [(''/out/Personal Diary/2025-01-01-journal-1.md'', ''earlier'')])
     = Inr ''/out/Personal Diary/2025-01-01-journal-2.md''
   \<and> fst (run_ingestion_pipeline (example_collaborators ''A day'' (Some 200) (Some ''id'')) example_config
          ''second'' ''b.txt'' ''/in/b.txt'' True
          (snd (run_ingestion_pipeline (example_collaborators ''A day'' (Some 200) (Some ''id'')) example_config
                 ''first'' ''a.txt'' ''/in/a.txt'' True
                 [(''/out/Personal Diary/2025-01-01-journal-1.md'', ''earlier'')])))
     = Inr ''/out/Personal Diary/2025-01-01-journal-3.md''
   \<and> fst (run_ingestion_pipeline (example_collaborators ''A day'' (Some 200) (Some ''id'')) example_config
          ''third'' ''c.txt'' ''/in/c.txt'' True
          (snd (run_ingestion_pipeline (example_collaborators ''A day'' (Some 200) (Some ''id'')) example_config
                 ''second'' ''b.txt'' ''/in/b.txt'' True
                 (snd (run_ingestion_pipeline (example_collaborators ''A day'' (Some 200) (Some ''id'')) example_config
                        ''first'' ''a.txt'' ''/in/a.txt'' True
                        [(''/out/Personal Diary/2025-01-01-journal-1.md'', ''earlier'')])))))
     = Inr ''/out/Personal Diary/2025-01-01-journal-4.md''"
  by code_simp

section \<open>The threads together\<close>

text \<open>
  The system as its threads run it, one step being one operation on the queue or one
  critical section under a lock. There is one worker thread; \<open>worker_pc\<close> is the place it has
  reached in its loop: before \<open>job_queue.get()\<close>, after it, inside the \<open>try\<close> block with the
  path in \<open>processing_files\<close>, and in the \<open>finally\<close> block before the removal. \<open>history\<close>
  records when the worker enters and leaves the \<open>try\<close> block.

  The producers (event handlers, debounce monitor, periodic scanner) change the queue and
  the debouncer only: \<open>put\<close> stands for any of their \<open>job_queue.put\<close> calls, whatever test
  on \<open>processing_files\<close> came before it, \<open>schedule_call\<close> for \<open>DebounceManager.schedule\<close> and
  \<open>monitor_collects\<close> for the locked part of a turn of \<open>_monitor\<close>.
\<close>

datatype worker_pc = Waiting | Dequeued job | Running job | Finishing job

datatype mark = Begin string | End string

record system =
  shared :: sys_state
  pc :: worker_pc
  history :: "mark list"

definition initial_system :: system where
  "initial_system = \<lparr>shared = \<lparr>job_queue = [], processing_files = {}, pending = []\<rparr>,
                      pc = Waiting, history = []\<rparr>"

inductive step :: "pipeline_calls \<Rightarrow> real \<Rightarrow> system \<Rightarrow> system \<Rightarrow> bool"
  for pl :: pipeline_calls and delay :: real where
  put: "step pl delay s (s\<lparr>shared := (shared s)\<lparr>job_queue := job_queue (shared s) @ [j]\<rparr>\<rparr>)"
| schedule_call:
    "step pl delay s (s\<lparr>shared := (shared s)\<lparr>pending := schedule delay filepath task_type now (pending (shared s))\<rparr>\<rparr>)"
| monitor_collects:
    "step pl delay s (s\<lparr>shared := (shared s)\<lparr>pending :=
        snd (monitor_collect now (pending (shared s)) ([], pending (shared s)))\<rparr>\<rparr>)"
| worker_get:
    "pc s = Waiting \<Longrightarrow> job_queue (shared s) = j # rest \<Longrightarrow>
     step pl delay s (s\<lparr>shared := (shared s)\<lparr>job_queue := rest\<rparr>, pc := Dequeued j\<rparr>)"
| worker_add:
    "pc s = Dequeued j \<Longrightarrow>
     step pl delay s (s\<lparr>shared := (shared s)\<lparr>processing_files := insert (snd j) (processing_files (shared s))\<rparr>,
                        pc := Running j, history := history s @ [Begin (snd j)]\<rparr>)"
| worker_body:
    "pc s = Running j \<Longrightarrow>
     step pl delay s (s\<lparr>shared := (case worker_try pl j (shared s) of Inl e \<Rightarrow> shared s | Inr st \<Rightarrow> st),
                        pc := Finishing j, history := history s @ [End (snd j)]\<rparr>)"
| worker_release:
    "pc s = Finishing j \<Longrightarrow>
     step pl delay s (s\<lparr>shared := worker_finally (snd j) (shared s), pc := Waiting\<rparr>)"

inductive reachable :: "pipeline_calls \<Rightarrow> real \<Rightarrow> system \<Rightarrow> bool"
  for pl :: pipeline_calls and delay :: real where
  init: "reachable pl delay initial_system"
| next_step: "reachable pl delay s \<Longrightarrow> step pl delay s s' \<Longrightarrow> reachable pl delay s'"

text \<open>The passes that a history has begun and not ended, in the order of their beginning.\<close>

definition open_passes :: "mark list \<Rightarrow> string list" where
  "open_passes h = foldl (\<lambda>running m. case m of Begin p \<Rightarrow> running @ [p] | End p \<Rightarrow> remove1 p running) [] h"

lemma open_passes_Nil: "open_passes [] = []"
  by (simp add: open_passes_def)

lemma open_passes_snoc:
  "open_passes (h @ [m]) = (case m of Begin p \<Rightarrow> open_passes h @ [p] | End p \<Rightarrow> remove1 p (open_passes h))"
  by (cases m) (simp_all add: open_passes_def)

definition worker_invariant :: "system \<Rightarrow> bool" where
  "worker_invariant s \<longleftrightarrow>
     (case pc s of
        Waiting \<Rightarrow> open_passes (history s) = []
      | Dequeued j \<Rightarrow> open_passes (history s) = []
      | Running j \<Rightarrow> open_passes (history s) = [snd j] \<and> snd j \<in> processing_files (shared s)
      | Finishing j \<Rightarrow> open_passes (history s) = [] \<and> snd j \<in> processing_files (shared s))"

lemma worker_invariant_step:
  assumes "step pl delay s s'" and "worker_invariant s"
  shows "worker_invariant s'"
  using assms
proof (induction rule: step.induct)
  case (worker_body s j)
  have "processing_files (case worker_try pl j (shared s) of Inl e \<Rightarrow> shared s | Inr st \<Rightarrow> st)
      = processing_files (shared s)"
    using worker_try_keeps [of pl j "shared s"] by (cases "worker_try pl j (shared s)") simp_all
  with worker_body show ?case by (simp add: worker_invariant_def open_passes_snoc)
qed (auto simp: worker_invariant_def open_passes_snoc worker_finally_def split: worker_pc.splits)

lemma worker_invariant_reachable: "reachable pl delay s \<Longrightarrow> worker_invariant s"
proof (induction rule: reachable.induct)
  case init
  show ?case by (simp add: worker_invariant_def initial_system_def open_passes_Nil)
next
  case (next_step s s')
  from next_step.hyps(2) next_step.IH show ?case by (rule worker_invariant_step)
qed

lemma step_history:
  "step pl delay s s' \<Longrightarrow> history s' = history s \<or> (\<exists>m. history s' = history s @ [m])"
  by (induction rule: step.induct) simp_all

lemma open_passes_reachable:
  "reachable pl delay s \<Longrightarrow> length (open_passes (history s)) \<le> 1"
  by (drule worker_invariant_reachable) (auto simp: worker_invariant_def split: worker_pc.splits)

lemma open_passes_prefix_reachable:
  "reachable pl delay s \<Longrightarrow> length (open_passes (take n (history s))) \<le> 1"
proof (induction arbitrary: n rule: reachable.induct)
  case init
  show ?case by (simp add: initial_system_def open_passes_Nil)
next
  case (next_step s s')
  have r': "reachable pl delay s'" using next_step.hyps by (rule reachable.next_step)
  from step_history [OF next_step.hyps(2)] show ?case
  proof
    assume "history s' = history s"
    with next_step.IH show ?thesis by simp
  next
    assume "\<exists>m. history s' = history s @ [m]"
    then obtain m where m: "history s' = history s @ [m]" by blast
    show ?thesis
    proof (cases "n \<le> length (history s)")
      case True
      with m next_step.IH [of n] show ?thesis by simp
    next
      case False
      with m have "take n (history s') = history s'" by simp
      with open_passes_reachable [OF r'] show ?thesis by simp
    qed
  qed
qed

text \<open>
  C1. In every state that the threads can reach, whatever the producers have put on the
  queue and however their steps fall between those of the worker, at most one processing
  pass has begun and not ended, and this holds at every earlier moment of the history as
  well; so no two passes overlap, for the same path or for different ones. From the
  beginning of a pass to its end, and afterwards until the \<open>finally\<close> block releases it, the
  path of the job is in the in-flight set.
\<close>

theorem at_most_one_pass_in_flight:
  assumes "reachable pl delay s"
  shows "(\<forall>n. length (open_passes (take n (history s))) \<le> 1)
       \<and> set (open_passes (history s)) \<subseteq> processing_files (shared s)
       \<and> (\<forall>j. pc s = Running j \<longrightarrow> open_passes (history s) = [snd j] \<and> snd j \<in> processing_files (shared s))
       \<and> (\<forall>j. pc s = Finishing j \<longrightarrow> snd j \<in> processing_files (shared s))
       \<and> ((\<forall>j. pc s \<noteq> Running j) \<longrightarrow> open_passes (history s) = [])"
proof -
  have inv: "worker_invariant s" using assms by (rule worker_invariant_reachable)
  have "\<forall>n. length (open_passes (take n (history s))) \<le> 1"
    using assms by (intro allI open_passes_prefix_reachable)
  moreover have "set (open_passes (history s)) \<subseteq> processing_files (shared s)"
    using inv by (auto simp: worker_invariant_def split: worker_pc.splits)
  moreover have "\<forall>j. pc s = Running j \<longrightarrow> open_passes (history s) = [snd j] \<and> snd j \<in> processing_files (shared s)"
    using inv by (auto simp: worker_invariant_def)
  moreover have "\<forall>j. pc s = Finishing j \<longrightarrow> snd j \<in> processing_files (shared s)"
    using inv by (auto simp: worker_invariant_def)
  moreover have "(\<forall>j. pc s \<noteq> Running j) \<longrightarrow> open_passes (history s) = []"
    using inv by (auto simp: worker_invariant_def split: worker_pc.splits)
  ultimately show ?thesis by blast
qed

theorem at_most_one_pass_in_flight_witness:
  "reachable
     \<lparr>path_exists = (\<lambda>p. True), process_audio_call = (\<lambda>p. Inr None),
      process_text_file_call = (\<lambda>p. Inr None), sync_existing_file_call = (\<lambda>p. Inr ())\<rparr> 15
     \<lparr>shared = \<lparr>job_queue = [(''text'', ''/in/a.txt'')], processing_files = {''/in/a.txt''}, pending = []\<rparr>,
      pc = Running (''text'', ''/in/a.txt''), history = [Begin ''/in/a.txt'']\<rparr>
   \<and> open_passes [Begin ''/in/a.txt''] = [''/in/a.txt'']
   \<and> length (open_passes (take 1 [Begin ''/in/a.txt''])) \<le> 1"
proof -
  let ?pl = "\<lparr>path_exists = (\<lambda>p. True), process_audio_call = (\<lambda>p. Inr None),
      process_text_file_call = (\<lambda>p. Inr None), sync_existing_file_call = (\<lambda>p. Inr ())\<rparr>"
  let ?j = "(''text'', ''/in/a.txt'')"
  have r0: "reachable ?pl 15 initial_system" by (rule reachable.init)
  have r1: "reachable ?pl 15
      \<lparr>shared = \<lparr>job_queue = [?j], processing_files = {}, pending = []\<rparr>, pc = Waiting, history = []\<rparr>"
    using reachable.next_step [OF r0 step.put [of ?pl 15 initial_system ?j]]
    by (simp add: initial_system_def)
  have r2: "reachable ?pl 15
      \<lparr>shared = \<lparr>job_queue = [?j, ?j], processing_files = {}, pending = []\<rparr>, pc = Waiting, history = []\<rparr>"
    using reachable.next_step [OF r1 step.put [of ?pl 15 _ ?j]] by simp
  have r3: "reachable ?pl 15
      \<lparr>shared = \<lparr>job_queue = [?j], processing_files = {}, pending = []\<rparr>, pc = Dequeued ?j, history = []\<rparr>"
    using reachable.next_step [OF r2 step.worker_get [of _ ?j "[?j]" ?pl 15]] by simp
  have r4: "reachable ?pl 15
      \<lparr>shared = \<lparr>job_queue = [?j], processing_files = {''/in/a.txt''}, pending = []\<rparr>,
       pc = Running ?j, history = [Begin ''/in/a.txt'']\<rparr>"
    using reachable.next_step [OF r3 step.worker_add [of _ ?j ?pl 15]] by simp
  from at_most_one_pass_in_flight [OF r4] r4 show ?thesis by simp
qed

text \<open>
  The four steps of the worker, taken one after the other, are one turn of its loop as
  \<open>worker_iteration\<close> computes it.
\<close>

lemma worker_steps_are_worker_iteration:
  assumes "pc s = Waiting" and "job_queue (shared s) = j # rest"
  shows "\<exists>s1 s2 s3 s4. step pl delay s s1 \<and> step pl delay s1 s2 \<and> step pl delay s2 s3
           \<and> step pl delay s3 s4 \<and> pc s4 = Waiting
           \<and> worker_iteration pl (shared s) = Some (shared s4)"
proof -
  let ?s1 = "s\<lparr>shared := (shared s)\<lparr>job_queue := rest\<rparr>, pc := Dequeued j\<rparr>"
  let ?s2 = "?s1\<lparr>shared := (shared ?s1)\<lparr>processing_files := insert (snd j) (processing_files (shared ?s1))\<rparr>,
                 pc := Running j, history := history ?s1 @ [Begin (snd j)]\<rparr>"
  let ?s3 = "?s2\<lparr>shared := (case worker_try pl j (shared ?s2) of Inl e \<Rightarrow> shared ?s2 | Inr st \<Rightarrow> st),
                 pc := Finishing j, history := history ?s2 @ [End (snd j)]\<rparr>"
  let ?s4 = "?s3\<lparr>shared := worker_finally (snd j) (shared ?s3), pc := Waiting\<rparr>"
  have "step pl delay s ?s1" using assms by (rule step.worker_get)
  moreover have "step pl delay ?s1 ?s2" by (rule step.worker_add) simp
  moreover have "step pl delay ?s2 ?s3" by (rule step.worker_body) simp
  moreover have "step pl delay ?s3 ?s4" by (rule step.worker_release) simp
  moreover have "pc ?s4 = Waiting" by simp
  moreover have "worker_iteration pl (shared s) = Some (shared ?s4)"
    using assms(2) by (simp add: worker_iteration_def Let_def split: sum.split)
  ultimately show ?thesis by blast
qed

end
